theory Spec2Isabelle
  imports Main "HOL-Library.Multiset"
begin

section \<open>Data model\<close>

text \<open>
  The repository holds two variants of the migration runner in \<^verbatim>\<open>src/index.js\<close>: the
  older one exports a function (lines 1--172, called \<^emph>\<open>legacy\<close> below, its definitions
  carry the prefix \<open>legacy_\<close>), the newer one exports the class \<^verbatim>\<open>Shift\<close> (lines
  172--394, called \<^emph>\<open>current\<close>, its definitions keep the source's names).

  A migration object and a row of the history table share the columns \<open>version\<close>,
  \<open>name\<close>, \<open>type\<close> and \<open>checksum\<close>; both are extensions of one record, so that the
  same selectors read either, as the same property names do in the source.
  Versions are JavaScript numbers that hold integers (the column is a CQL \<open>int\<close>, the
  definition's version comes from \<^verbatim>\<open>parseInt\<close> of a run of digits); they are modelled
  as \<open>int\<close>, which leaves out the loss of precision of a double beyond \<open>2^53\<close>.
\<close>

datatype error =
    MigrationFailed int string
  | VersionMismatch int int
  | NameMismatch string string
  | ChecksumMismatch string string
  | TypeError
  | Thrown string

text \<open>
  \<open>MigrationFailed v n\<close> is the \<^verbatim>\<open>Error\<close> "Migration v - n failed, fix manually before
  retrying"; the three mismatch errors carry the applied and the defined value of their
  message; \<open>TypeError\<close> is what the engine raises when a property of \<^verbatim>\<open>undefined\<close> or
  \<^verbatim>\<open>null\<close> is read; \<open>Thrown msg\<close> is whatever a collaborator outside
  \<^verbatim>\<open>src/index.js\<close> raises (a migration's \<^verbatim>\<open>execute\<close> or \<^verbatim>\<open>load\<close>, the driver, the
  file system).
\<close>

record ident =
  version :: int
  name :: string
  mtype :: string
  checksum :: string

record row = ident +
  installed_on :: int
  execution_time :: int
  success :: bool

record 'c migration = ident +
  execute :: "'c \<Rightarrow> error option \<times> 'c"

text \<open>
  \<open>'c\<close> is the state of the cluster apart from the history tables. A migration's
  \<^verbatim>\<open>execute\<close> maps it to a new state and says whether it raised (\<open>Some err\<close>): a
  migration that fails half way has still changed the cluster.
\<close>

definition ident_of :: "'a ident_scheme \<Rightarrow> ident" where
  "ident_of m = \<lparr>version = version m, name = name m, mtype = mtype m, checksum = checksum m\<rparr>"

section \<open>Reconciliation: checkAppliedMigrations\<close>

text \<open>
  The loop of lines 287--302, started at index \<open>i\<close>. \<^verbatim>\<open>migrations[i]\<close> beyond the end
  of the array is \<^verbatim>\<open>undefined\<close>, for which \<^verbatim>\<open>m == null\<close> holds: the iteration is
  skipped.
\<close>

function check_from :: "nat \<Rightarrow> row list \<Rightarrow> 'c migration list \<Rightarrow> error + unit" where
  "check_from i appliedMigrations migrations =
     (if i < length appliedMigrations then
        (if length migrations \<le> i then check_from (Suc i) appliedMigrations migrations
         else if version (appliedMigrations ! i) \<noteq> version (migrations ! i) then
           Inl (VersionMismatch (version (appliedMigrations ! i)) (version (migrations ! i)))
         else if name (appliedMigrations ! i) \<noteq> name (migrations ! i) then
           Inl (NameMismatch (name (appliedMigrations ! i)) (name (migrations ! i)))
         else if checksum (appliedMigrations ! i) \<noteq> checksum (migrations ! i) then
           Inl (ChecksumMismatch (checksum (appliedMigrations ! i)) (checksum (migrations ! i)))
         else check_from (Suc i) appliedMigrations migrations)
      else Inr ())"
  by pat_completeness auto
termination
  by (relation "measure (\<lambda>(i, ams, ms). length ams - i)") auto

declare check_from.simps [simp del]

text \<open>Lines 273--303. The debug message of lines 283--285 has no effect on the result.\<close>

definition checkAppliedMigrations :: "row list \<Rightarrow> 'c migration list \<Rightarrow> error + unit" where
  "checkAppliedMigrations appliedMigrations migrations =
     (if length appliedMigrations = 0 then Inr ()
      else if \<not> success (appliedMigrations ! (length appliedMigrations - 1)) then
        Inl (MigrationFailed (version (appliedMigrations ! (length appliedMigrations - 1)))
                             (name (appliedMigrations ! (length appliedMigrations - 1))))
      else check_from 0 appliedMigrations migrations)"

text \<open>
  The legacy loop of lines 103--115 has no guard: beyond the end of \<^verbatim>\<open>migrations\<close> it
  reads \<^verbatim>\<open>m.version\<close> of \<^verbatim>\<open>undefined\<close>, which raises a \<^verbatim>\<open>TypeError\<close>.
\<close>

function legacy_check_from :: "nat \<Rightarrow> row list \<Rightarrow> 'c migration list \<Rightarrow> error + unit" where
  "legacy_check_from i appliedMigrations migrations =
     (if i < length appliedMigrations then
        (if length migrations \<le> i then Inl TypeError
         else if version (appliedMigrations ! i) \<noteq> version (migrations ! i) then
           Inl (VersionMismatch (version (appliedMigrations ! i)) (version (migrations ! i)))
         else if name (appliedMigrations ! i) \<noteq> name (migrations ! i) then
           Inl (NameMismatch (name (appliedMigrations ! i)) (name (migrations ! i)))
         else if checksum (appliedMigrations ! i) \<noteq> checksum (migrations ! i) then
           Inl (ChecksumMismatch (checksum (appliedMigrations ! i)) (checksum (migrations ! i)))
         else legacy_check_from (Suc i) appliedMigrations migrations)
      else Inr ())"
  by pat_completeness auto
termination
  by (relation "measure (\<lambda>(i, ams, ms). length ams - i)") auto

declare legacy_check_from.simps [simp del]

text \<open>Lines 93--116.\<close>

definition legacy_checkAppliedMigrations :: "row list \<Rightarrow> 'c migration list \<Rightarrow> error + unit" where
  "legacy_checkAppliedMigrations appliedMigrations migrations =
     (if length appliedMigrations = 0 then Inr ()
      else if \<not> success (appliedMigrations ! (length appliedMigrations - 1)) then
        Inl (MigrationFailed (version (appliedMigrations ! (length appliedMigrations - 1)))
                             (name (appliedMigrations ! (length appliedMigrations - 1))))
      else legacy_check_from 0 appliedMigrations migrations)"

text \<open>
  What the claims call a matching pair: the applied record and the definition agree on
  version, name and checksum.
\<close>

definition agrees :: "row \<Rightarrow> 'c migration \<Rightarrow> bool" where
  "agrees am m = (version am = version m \<and> name am = name m \<and> checksum am = checksum m)"

definition is_mismatch :: "error \<Rightarrow> bool" where
  "is_mismatch e = (case e of VersionMismatch a d \<Rightarrow> True | NameMismatch a d \<Rightarrow> True
                     | ChecksumMismatch a d \<Rightarrow> True | _ \<Rightarrow> False)"


section \<open>The cluster, as the engine sees it\<close>

text \<open>
  The driver is a collaborator outside the sources. The model keeps what the engine's
  statements read and write: the history tables by name, each as the list of its rows in
  the order in which a \<^verbatim>\<open>SELECT *\<close> returns them (CQL leaves that order to the
  partitioner), everything else of the cluster as \<open>cluster\<close>, the successive readings
  of the system clock (\<^verbatim>\<open>new Date()\<close>) as \<open>dates\<close>, and a trace of what the run did:
  the set-up statements it sent, the migrations it executed, the rows it inserted and the
  events it emitted. Keyspaces are not modelled beyond the trace: a history table is
  identified by its name. A migration acts on \<open>cluster\<close> only.
\<close>

datatype event =
    ensuredKeyspace
  | usedKeyspace
  | ensuredMigrationTable
  | checkedAppliedMigrations
  | appliedMigration int string string

datatype action =
    CreateKeyspace string
  | UseKeyspace string
  | CreateTable string
  | Execute ident
  | Insert string row
  | Emit event

record 'c world =
  cluster :: 'c
  tables :: "string \<Rightarrow> row list option"
  dates :: "nat \<Rightarrow> int"
  reads :: nat
  trace :: "action list"

definition new_Date :: "'c world \<Rightarrow> int \<times> 'c world" where
  "new_Date w = (dates w (reads w), w\<lparr>reads := Suc (reads w)\<rparr>)"

definition emit :: "event \<Rightarrow> 'c world \<Rightarrow> 'c world" where
  "emit e w = w\<lparr>trace := trace w @ [Emit e]\<rparr>"

text \<open>
  The table is created with \<^verbatim>\<open>PRIMARY KEY (version)\<close> (lines 202--211), and a CQL
  \<^verbatim>\<open>INSERT\<close> without \<^verbatim>\<open>IF NOT EXISTS\<close> writes the row of its primary key: it replaces
  the row of that version when there is one.
\<close>

definition upsert :: "row \<Rightarrow> row list \<Rightarrow> row list" where
  "upsert r rows =
     (if version r \<in> set (map version rows)
      then map (\<lambda>x. if version x = version r then r else x) rows
      else rows @ [r])"

definition insert_into :: "string \<Rightarrow> row \<Rightarrow> 'c world \<Rightarrow> (error + unit) \<times> 'c world" where
  "insert_into tbl r w =
     (case tables w tbl of
        None \<Rightarrow> (Inl (Thrown ''unconfigured table''), w)
      | Some rows \<Rightarrow>
          (Inr (), w\<lparr>tables := (tables w)(tbl \<mapsto> upsert r rows),
                      trace := trace w @ [Insert tbl r]\<rparr>))"

definition select_all :: "string \<Rightarrow> 'c world \<Rightarrow> error + row list" where
  "select_all tbl w =
     (case tables w tbl of
        None \<Rightarrow> Inl (Thrown ''unconfigured table'')
      | Some rows \<Rightarrow> Inr rows)"

text \<open>Lines 183--197: the statements go to the driver; the model records them.\<close>

definition ensureKeyspace :: "string \<Rightarrow> 'c world \<Rightarrow> 'c world" where
  "ensureKeyspace ks w = w\<lparr>trace := trace w @ [CreateKeyspace ks]\<rparr>"

definition useKeyspace :: "string \<Rightarrow> 'c world \<Rightarrow> 'c world" where
  "useKeyspace ks w = w\<lparr>trace := trace w @ [UseKeyspace ks]\<rparr>"

text \<open>Lines 199--212: \<^verbatim>\<open>CREATE TABLE IF NOT EXISTS\<close>.\<close>

definition ensureMigrationTable :: "string \<Rightarrow> 'c world \<Rightarrow> 'c world" where
  "ensureMigrationTable migrationTable w =
     w\<lparr>tables := (case tables w migrationTable of
                     None \<Rightarrow> (tables w)(migrationTable \<mapsto> [])
                   | Some rows \<Rightarrow> tables w),
       trace := trace w @ [CreateTable migrationTable]\<rparr>"

section \<open>Reading the history: getAppliedMigrations\<close>

text \<open>
  Lines 214--220. \<^verbatim>\<open>Array.prototype.sort\<close> with the comparator
  \<^verbatim>\<open>r1.version - r2.version\<close> is a stable sort by ascending version.
\<close>

definition getAppliedMigrations :: "string \<Rightarrow> 'c world \<Rightarrow> error + row list" where
  "getAppliedMigrations migrationTable w =
     (case select_all migrationTable w of
        Inl e \<Rightarrow> Inl e
      | Inr rows \<Rightarrow> Inr (sort_key version rows))"

text \<open>Lines 42--46: the legacy variant returns the rows as the driver gives them.\<close>

definition legacy_getAppliedMigrations :: "'c world \<Rightarrow> error + row list" where
  "legacy_getAppliedMigrations w = select_all ''migration_history'' w"

section \<open>Execution: executeMigration and the loop of migrate\<close>

text \<open>
  Lines 305--337. The \<^verbatim>\<open>try\<close>/\<^verbatim>\<open>catch\<close> keeps the error of \<^verbatim>\<open>execute\<close> in
  \<^verbatim>\<open>cachedError\<close>; the row is inserted in both cases; an error of the insert itself
  leaves the function at once; otherwise the cached error is thrown.
\<close>

definition executeMigration ::
  "string \<Rightarrow> 'c migration \<Rightarrow> 'c world \<Rightarrow> (error + unit) \<times> 'c world" where
  "executeMigration migrationTable migration w =
     (case new_Date w of (now, w1) \<Rightarrow>
      (case execute migration (cluster w1) of (cachedError, c) \<Rightarrow>
       (case new_Date (w1\<lparr>cluster := c, trace := trace w1 @ [Execute (ident_of migration)]\<rparr>)
        of (later, w2) \<Rightarrow>
        (case insert_into migrationTable
                \<lparr>version = version migration, name = name migration,
                 mtype = mtype migration, checksum = checksum migration,
                 installed_on = now, execution_time = later - now,
                 success = (cachedError = None)\<rparr> w2
         of (Inl e, w3) \<Rightarrow> (Inl e, w3)
          | (Inr u, w3) \<Rightarrow>
              (case cachedError of
                 None \<Rightarrow> (Inr (), w3)
               | Some err \<Rightarrow> (Inl err, w3))))))"

text \<open>Lines 370--378, the loop started at index \<open>i\<close>.\<close>

function migrate_loop ::
  "string \<Rightarrow> 'c migration list \<Rightarrow> nat \<Rightarrow> 'c world \<Rightarrow> (error + unit) \<times> 'c world" where
  "migrate_loop migrationTable availableMigrations i w =
     (if i < length availableMigrations then
        (case executeMigration migrationTable (availableMigrations ! i) w of
           (Inl e, w') \<Rightarrow> (Inl e, w')
         | (Inr u, w') \<Rightarrow>
             migrate_loop migrationTable availableMigrations (Suc i)
               (emit (appliedMigration (version (availableMigrations ! i))
                        (name (availableMigrations ! i)) (mtype (availableMigrations ! i))) w'))
      else (Inr (), w))"
  by pat_completeness auto
termination
  by (relation "measure (\<lambda>(t, ms, i, w). length ms - i)") auto

declare migrate_loop.simps [simp del]

text \<open>
  Lines 367--380: \<^verbatim>\<open>migrate\<close> from the reconciliation on, for the history and the
  definitions that lines 364 and 365 have read.
\<close>

definition migrate_body ::
  "string \<Rightarrow> row list \<Rightarrow> 'c migration list \<Rightarrow> 'c world \<Rightarrow> (error + unit) \<times> 'c world" where
  "migrate_body migrationTable appliedMigrations availableMigrations w =
     (case checkAppliedMigrations appliedMigrations availableMigrations of
        Inl e \<Rightarrow> (Inl e, w)
      | Inr u \<Rightarrow>
          migrate_loop migrationTable availableMigrations (length appliedMigrations)
            (emit checkedAppliedMigrations w))"

text \<open>
  The legacy variant: \<^verbatim>\<open>executeMigration\<close> of lines 118--150 is that of lines 305--337
  with the table name fixed; the loop of lines 166--169 emits nothing.
\<close>

definition legacy_executeMigration ::
  "'c migration \<Rightarrow> 'c world \<Rightarrow> (error + unit) \<times> 'c world" where
  "legacy_executeMigration migration w =
     (case new_Date w of (now, w1) \<Rightarrow>
      (case execute migration (cluster w1) of (cachedError, c) \<Rightarrow>
       (case new_Date (w1\<lparr>cluster := c, trace := trace w1 @ [Execute (ident_of migration)]\<rparr>)
        of (later, w2) \<Rightarrow>
        (case insert_into ''migration_history''
                \<lparr>version = version migration, name = name migration,
                 mtype = mtype migration, checksum = checksum migration,
                 installed_on = now, execution_time = later - now,
                 success = (cachedError = None)\<rparr> w2
         of (Inl e, w3) \<Rightarrow> (Inl e, w3)
          | (Inr u, w3) \<Rightarrow>
              (case cachedError of
                 None \<Rightarrow> (Inr (), w3)
               | Some err \<Rightarrow> (Inl err, w3))))))"

function legacy_migrate_loop ::
  "'c migration list \<Rightarrow> nat \<Rightarrow> 'c world \<Rightarrow> (error + unit) \<times> 'c world" where
  "legacy_migrate_loop migrations i w =
     (if i < length migrations then
        (case legacy_executeMigration (migrations ! i) w of
           (Inl e, w') \<Rightarrow> (Inl e, w')
         | (Inr u, w') \<Rightarrow> legacy_migrate_loop migrations (Suc i) w')
      else (Inr (), w))"
  by pat_completeness auto
termination
  by (relation "measure (\<lambda>(ms, i, w). length ms - i)") auto

declare legacy_migrate_loop.simps [simp del]

text \<open>Lines 164--171.\<close>

definition legacy_migrate_body ::
  "row list \<Rightarrow> 'c migration list \<Rightarrow> 'c world \<Rightarrow> (error + unit) \<times> 'c world" where
  "legacy_migrate_body appliedMigrations migrations w =
     (case legacy_checkAppliedMigrations appliedMigrations migrations of
        Inl e \<Rightarrow> (Inl e, w)
      | Inr u \<Rightarrow> legacy_migrate_loop migrations (length appliedMigrations) w)"

text \<open>What a trace says was executed, written to a history table, and announced per unit.\<close>

fun attempted :: "action list \<Rightarrow> ident list" where
  "attempted [] = []"
| "attempted (Execute m # as) = m # attempted as"
| "attempted (a # as) = attempted as"

fun written :: "action list \<Rightarrow> row list" where
  "written [] = []"
| "written (Insert t r # as) = r # written as"
| "written (a # as) = written as"

fun applied_events :: "action list \<Rightarrow> event list" where
  "applied_events [] = []"
| "applied_events (Emit (appliedMigration v n t) # as) = appliedMigration v n t # applied_events as"
| "applied_events (a # as) = applied_events as"

section \<open>Loading the definitions\<close>

text \<open>
  The pattern of lines 49 and 229 is \<^verbatim>\<open>/^([0-9]+)__([A-z0-9_]*)\.(js|cql)$/\<close>. The class
  \<^verbatim>\<open>[A-z]\<close> is the range of codes 65 to 122, which holds the letters and the six
  characters between \<^verbatim>\<open>Z\<close> and \<^verbatim>\<open>a\<close>, the underscore among them.
\<close>

definition is_digit :: "char \<Rightarrow> bool" where
  "is_digit c = (48 \<le> (of_char c :: nat) \<and> (of_char c :: nat) \<le> 57)"

definition is_name_char :: "char \<Rightarrow> bool" where
  "is_name_char c = ((65 \<le> (of_char c :: nat) \<and> (of_char c :: nat) \<le> 122) \<or> is_digit c)"

text \<open>
  The language of the pattern, as a regular expression denotes it: the file name is a
  non-empty run of digits, two underscores, a run of name characters, a dot, and
  \<^verbatim>\<open>js\<close> or \<^verbatim>\<open>cql\<close>.
\<close>

definition matches_pattern :: "string \<Rightarrow> bool" where
  "matches_pattern filename =
     (\<exists>ds nm ext. filename = ds @ ''__'' @ nm @ ''.'' @ ext \<and> ds \<noteq> [] \<and>
        list_all is_digit ds \<and> list_all is_name_char nm \<and> (ext = ''js'' \<or> ext = ''cql''))"

text \<open>
  \<^verbatim>\<open>filename.match(...)\<close>: \<open>None\<close> is JavaScript's \<^verbatim>\<open>null\<close>, \<open>Some\<close> holds the three
  groups. No backtracking is needed: an underscore is no digit and a dot is no name
  character, so each run is the longest one. The pattern is anchored at both ends, so
  the \<^verbatim>\<open>index\<close> of a match is always 0.
\<close>

definition match_filename :: "string \<Rightarrow> (string \<times> string \<times> string) option" where
  "match_filename filename =
     (if takeWhile is_digit filename = [] then None
      else if take 2 (dropWhile is_digit filename) \<noteq> ''__'' then None
      else if dropWhile is_name_char (drop 2 (dropWhile is_digit filename)) = ''.js'' then
        Some (takeWhile is_digit filename,
              takeWhile is_name_char (drop 2 (dropWhile is_digit filename)), ''js'')
      else if dropWhile is_name_char (drop 2 (dropWhile is_digit filename)) = ''.cql'' then
        Some (takeWhile is_digit filename,
              takeWhile is_name_char (drop 2 (dropWhile is_digit filename)), ''cql'')
      else None)"

text \<open>\<^verbatim>\<open>parseInt\<close> of a run of decimal digits.\<close>

definition parseInt :: "string \<Rightarrow> int" where
  "parseInt ds = foldl (\<lambda>n c. 10 * n + (int (of_char c) - 48)) 0 ds"

text \<open>\<^verbatim>\<open>toUpperCase\<close> of one character of a matched name: only \<^verbatim>\<open>a\<close> to \<^verbatim>\<open>z\<close> change.\<close>

definition toUpperCase :: "char \<Rightarrow> char" where
  "toUpperCase c =
     (if 97 \<le> (of_char c :: nat) \<and> (of_char c :: nat) \<le> 122
      then char_of ((of_char c :: nat) - 32) else c)"

text \<open>
  Lines 222--226. For the empty name \<^verbatim>\<open>spaced[0]\<close> is \<^verbatim>\<open>undefined\<close>, and calling its
  \<^verbatim>\<open>toUpperCase\<close> raises a \<^verbatim>\<open>TypeError\<close>.
\<close>

definition prettyName :: "string \<Rightarrow> error + string" where
  "prettyName nm =
     (case map (\<lambda>c. if c = CHR ''_'' then CHR '' '' else c) nm of
        [] \<Rightarrow> Inl TypeError
      | c # spaced \<Rightarrow> Inr (toUpperCase c # spaced))"

text \<open>
  The file system and the two migration classes are taken as parameters:
  \<open>readdirSync\<close> lists a directory (or raises), and \<open>load\<close>, given the extension that
  selects the class and the path, stands for the constructor followed by
  \<^verbatim>\<open>migration.load()\<close>: it raises or gives the type tag, the checksum and the payload
  of the unit. Of the classes only \<^verbatim>\<open>CqlMigration\<close> is among the sources, and it rests
  on \<^verbatim>\<open>BaseMigration\<close>, which is not.
\<close>

record 'c env =
  readdirSync :: "string \<Rightarrow> error + string list"
  load :: "string \<Rightarrow> string \<Rightarrow> error + string \<times> string \<times> ('c \<Rightarrow> error option \<times> 'c)"

text \<open>
  Lines 228--256. Modelled from the spec: \<^verbatim>\<open>BaseMigration\<close>'s constructor is missing
  from the sources; the unit it builds has the \<open>version\<close> and the \<open>name\<close> of the
  options it is given (the spec: the version is "parsed from naming", the name is
  "derived from source naming, display-formatted"). \<^verbatim>\<open>path.sep\<close> is taken as a slash.
\<close>

definition loadAvailableMigration ::
  "'c env \<Rightarrow> string \<Rightarrow> string \<Rightarrow> error + 'c migration option" where
  "loadAvailableMigration env dir filename =
     (case match_filename filename of
        None \<Rightarrow> Inr None
      | Some (digits, nm, ext) \<Rightarrow>
          (case prettyName nm of
             Inl e \<Rightarrow> Inl e
           | Inr pretty \<Rightarrow>
               (case load env ext (dir @ ''/'' @ filename) of
                  Inl e \<Rightarrow> Inl e
                | Inr (ty, cs, payload) \<Rightarrow>
                    Inr (Some \<lparr>version = parseInt digits, name = pretty, mtype = ty,
                               checksum = cs, execute = payload\<rparr>))))"

text \<open>Lines 263--270: the loop over the listing, with the array built so far.\<close>

fun load_loop ::
  "'c env \<Rightarrow> string \<Rightarrow> string list \<Rightarrow> 'c migration list \<Rightarrow> error + 'c migration list" where
  "load_loop env dir [] migrations = Inr migrations"
| "load_loop env dir (file # migrationFiles) migrations =
     (case loadAvailableMigration env dir file of
        Inl e \<Rightarrow> Inl e
      | Inr None \<Rightarrow> load_loop env dir migrationFiles migrations
      | Inr (Some m) \<Rightarrow> load_loop env dir migrationFiles (migrations @ [m]))"

text \<open>Lines 258--271.\<close>

definition loadAvailableMigrations :: "'c env \<Rightarrow> string \<Rightarrow> error + 'c migration list" where
  "loadAvailableMigrations env dir =
     (case readdirSync env dir of
        Inl e \<Rightarrow> Inl e
      | Inr migrationFiles \<Rightarrow> load_loop env dir migrationFiles [])"

text \<open>
  Lines 48--76, the legacy variant: \<^verbatim>\<open>match.index\<close> is read without a test for
  \<^verbatim>\<open>null\<close>, so a file name that does not match raises a \<^verbatim>\<open>TypeError\<close>; the name is
  kept as it is written in the file name.
\<close>

definition legacy_loadMigration ::
  "'c env \<Rightarrow> string \<Rightarrow> string \<Rightarrow> error + 'c migration option" where
  "legacy_loadMigration env dir filename =
     (case match_filename filename of
        None \<Rightarrow> Inl TypeError
      | Some (digits, nm, ext) \<Rightarrow>
          (case load env ext (dir @ ''/'' @ filename) of
             Inl e \<Rightarrow> Inl e
           | Inr (ty, cs, payload) \<Rightarrow>
               Inr (Some \<lparr>version = parseInt digits, name = nm, mtype = ty,
                          checksum = cs, execute = payload\<rparr>)))"

fun legacy_load_loop ::
  "'c env \<Rightarrow> string \<Rightarrow> string list \<Rightarrow> 'c migration list \<Rightarrow> error + 'c migration list" where
  "legacy_load_loop env dir [] migrations = Inr migrations"
| "legacy_load_loop env dir (file # migrationFiles) migrations =
     (case legacy_loadMigration env dir file of
        Inl e \<Rightarrow> Inl e
      | Inr None \<Rightarrow> legacy_load_loop env dir migrationFiles migrations
      | Inr (Some m) \<Rightarrow> legacy_load_loop env dir migrationFiles (migrations @ [m]))"

text \<open>Lines 78--91.\<close>

definition legacy_loadMigrations :: "'c env \<Rightarrow> string \<Rightarrow> error + 'c migration list" where
  "legacy_loadMigrations env dir =
     (case readdirSync env dir of
        Inl e \<Rightarrow> Inl e
      | Inr migrationFiles \<Rightarrow> legacy_load_loop env dir migrationFiles [])"

text \<open>The version that a matching file name stands for.\<close>

definition file_version :: "string \<Rightarrow> int" where
  "file_version filename = parseInt (takeWhile is_digit filename)"

section \<open>The runner\<close>

record opts =
  opt_ensureKeyspace :: bool
  opt_useKeyspace :: bool
  keyspace :: string
  migrationTable :: string
  dir :: string

text \<open>
  Lines 341--348, the constructor: a table name that is missing or empty (the empty
  string stands for both) becomes \<^verbatim>\<open>migration_history\<close>.
\<close>

definition Shift :: "opts \<Rightarrow> opts" where
  "Shift opts = (if migrationTable opts = [] then opts\<lparr>migrationTable := ''migration_history''\<rparr> else opts)"

text \<open>
  Lines 350--381. \<open>set_up\<close> is lines 351--362, the statements and events before the
  history is read.
\<close>

definition set_up :: "opts \<Rightarrow> 'c world \<Rightarrow> 'c world" where
  "set_up opts w =
     (let w1 = (if opt_ensureKeyspace opts
                then emit ensuredKeyspace (ensureKeyspace (keyspace opts) w) else w);
          w2 = (if opt_useKeyspace opts
                then emit usedKeyspace (useKeyspace (keyspace opts) w1) else w1)
      in emit ensuredMigrationTable (ensureMigrationTable (migrationTable opts) w2))"

definition migrate :: "'c env \<Rightarrow> opts \<Rightarrow> 'c world \<Rightarrow> (error + unit) \<times> 'c world" where
  "migrate env opts w =
     (case getAppliedMigrations (migrationTable opts) (set_up opts w) of
        Inl e \<Rightarrow> (Inl e, set_up opts w)
      | Inr appliedMigrations \<Rightarrow>
          (case loadAvailableMigrations env (dir opts) of
             Inl e \<Rightarrow> (Inl e, set_up opts w)
           | Inr availableMigrations \<Rightarrow>
               migrate_body (migrationTable opts) appliedMigrations availableMigrations
                 (set_up opts w)))"

text \<open>Lines 152--172, the legacy runner; its table name is fixed.\<close>

definition legacy_set_up :: "opts \<Rightarrow> 'c world \<Rightarrow> 'c world" where
  "legacy_set_up opts w =
     (let w1 = (if opt_ensureKeyspace opts then ensureKeyspace (keyspace opts) w else w);
          w2 = (if opt_useKeyspace opts then useKeyspace (keyspace opts) w1 else w1)
      in ensureMigrationTable ''migration_history'' w2)"

definition legacy_migrate :: "'c env \<Rightarrow> opts \<Rightarrow> 'c world \<Rightarrow> (error + unit) \<times> 'c world" where
  "legacy_migrate env opts w =
     (case legacy_getAppliedMigrations (legacy_set_up opts w) of
        Inl e \<Rightarrow> (Inl e, legacy_set_up opts w)
      | Inr appliedMigrations \<Rightarrow>
          (case legacy_loadMigrations env (dir opts) of
             Inl e \<Rightarrow> (Inl e, legacy_set_up opts w)
           | Inr migrations \<Rightarrow> legacy_migrate_body appliedMigrations migrations (legacy_set_up opts w)))"

section \<open>Notions the statements use\<close>

text \<open>
  The row that \<open>executeMigration\<close> writes for a migration in a given world, and the
  world it leaves when the history table exists.
\<close>

definition ledger_row :: "'c migration \<Rightarrow> 'c world \<Rightarrow> row" where
  "ledger_row m w =
     \<lparr>version = version m, name = name m, mtype = mtype m, checksum = checksum m,
      installed_on = dates w (reads w),
      execution_time = dates w (Suc (reads w)) - dates w (reads w),
      success = (fst (execute m (cluster w)) = None)\<rparr>"

definition executed :: "string \<Rightarrow> 'c migration \<Rightarrow> 'c world \<Rightarrow> 'c world" where
  "executed tbl m w =
     w\<lparr>cluster := snd (execute m (cluster w)),
       tables := (tables w)(tbl \<mapsto> upsert (ledger_row m w) (the (tables w tbl))),
       reads := Suc (Suc (reads w)),
       trace := trace w @ [Execute (ident_of m), Insert tbl (ledger_row m w)]\<rparr>"

text \<open>The loop of \<open>migrate\<close> over the list of the units still to run.\<close>

fun run_units ::
  "string \<Rightarrow> 'c migration list \<Rightarrow> 'c world \<Rightarrow> (error + unit) \<times> 'c world" where
  "run_units tbl [] w = (Inr (), w)"
| "run_units tbl (m # ms) w =
     (case executeMigration tbl m w of
        (Inl e, w') \<Rightarrow> (Inl e, w')
      | (Inr u, w') \<Rightarrow> run_units tbl ms (emit (appliedMigration (version m) (name m) (mtype m)) w'))"

text \<open>
  The cluster after every unit of a list has executed without raising, each on the state
  its predecessor left; \<open>None\<close> when one of them raises.
\<close>

fun succeed_all :: "'c migration list \<Rightarrow> 'c \<Rightarrow> 'c option" where
  "succeed_all [] c = Some c"
| "succeed_all (m # ms) c =
     (case execute m c of
        (None, c') \<Rightarrow> succeed_all ms c'
      | (Some e, c') \<Rightarrow> None)"

text \<open>The event that the loop of \<open>migrate\<close> emits after a unit (lines 373--377).\<close>

definition event_of :: "'c migration \<Rightarrow> event" where
  "event_of m = appliedMigration (version m) (name m) (mtype m)"

section \<open>Concrete inputs\<close>

text \<open>
  The scenario of the spec: the definitions \<^verbatim>\<open>1__create_users.cql\<close> and
  \<^verbatim>\<open>2__add_index.cql\<close>, a third one, their rows in the history table, and variants
  of them. The cluster state is trivial here.
\<close>

definition noop :: "unit \<Rightarrow> error option \<times> unit" where
  "noop c = (None, c)"

definition failing :: "unit \<Rightarrow> error option \<times> unit" where
  "failing c = (Some (Thrown ''Invalid query''), c)"

definition unit_1 :: "unit migration" where
  "unit_1 = \<lparr>version = 1, name = ''Create users'', mtype = ''CQL'', checksum = ''abc'',
             execute = noop\<rparr>"

definition unit_1_edited :: "unit migration" where
  "unit_1_edited = \<lparr>version = 1, name = ''Create users'', mtype = ''CQL'', checksum = ''xyz'',
                    execute = noop\<rparr>"

definition unit_2 :: "unit migration" where
  "unit_2 = \<lparr>version = 2, name = ''Add index'', mtype = ''CQL'', checksum = ''def'',
             execute = noop\<rparr>"

definition unit_2_failing :: "unit migration" where
  "unit_2_failing = \<lparr>version = 2, name = ''Add index'', mtype = ''CQL'', checksum = ''def'',
                     execute = failing\<rparr>"

definition unit_2_renumbered :: "unit migration" where
  "unit_2_renumbered = \<lparr>version = 3, name = ''Add index'', mtype = ''CQL'', checksum = ''ghi'',
                        execute = noop\<rparr>"

definition unit_10 :: "unit migration" where
  "unit_10 = \<lparr>version = 10, name = ''Add table'', mtype = ''CQL'', checksum = ''abc'',
              execute = noop\<rparr>"

definition unit_3 :: "unit migration" where
  "unit_3 = \<lparr>version = 3, name = ''Add table'', mtype = ''JS'', checksum = ''ghi'',
             execute = noop\<rparr>"

definition row_1 :: row where
  "row_1 = \<lparr>version = 1, name = ''Create users'', mtype = ''CQL'', checksum = ''abc'',
            installed_on = 1000, execution_time = 7, success = True\<rparr>"

definition row_2 :: row where
  "row_2 = \<lparr>version = 2, name = ''Add index'', mtype = ''CQL'', checksum = ''def'',
            installed_on = 2000, execution_time = 9, success = True\<rparr>"

definition row_2_failed :: row where
  "row_2_failed = \<lparr>version = 2, name = ''Add index'', mtype = ''CQL'', checksum = ''def'',
                   installed_on = 2000, execution_time = 9, success = False\<rparr>"

definition world_with :: "row list \<Rightarrow> unit world" where
  "world_with rows =
     \<lparr>cluster = (), tables = [''migration_history'' \<mapsto> rows], dates = int, reads = 0,
      trace = []\<rparr>"

text \<open>
  A directory with the given listing, in which \<^verbatim>\<open>2__add_index.cql\<close> has the content
  of checksum \<^verbatim>\<open>def\<close> and every other file that of checksum \<^verbatim>\<open>abc\<close>; all are
  statement files that execute without raising.
\<close>

definition listing_env :: "string list \<Rightarrow> unit env" where
  "listing_env files =
     \<lparr>readdirSync = (\<lambda>d. Inr files),
      load = (\<lambda>ext path.
        Inr (''CQL'', if path = ''migrations/2__add_index.cql'' then ''def'' else ''abc'', noop))\<rparr>"

definition opts_0 :: opts where
  "opts_0 = \<lparr>opt_ensureKeyspace = True, opt_useKeyspace = True, keyspace = ''app'',
             migrationTable = ''migration_history'', dir = ''migrations''\<rparr>"

section \<open>Properties of the reconciliation\<close>

lemma check_from_ok_iff:
  "check_from i ams ms = Inr () \<longleftrightarrow>
     (\<forall>j. i \<le> j \<and> j < length ams \<and> j < length ms \<longrightarrow> agrees (ams ! j) (ms ! j))"
proof (induction i ams ms rule: check_from.induct)
  case (1 i ams ms)
  show ?case
  proof (cases "i < length ams")
    case False
    then show ?thesis by (auto simp add: check_from.simps [of i])
  next
    case inside: True
    show ?thesis
    proof (cases "length ms \<le> i")
      case True
      with inside have "check_from i ams ms = check_from (Suc i) ams ms"
        by (simp add: check_from.simps [of i])
      moreover from True have "\<And>j. i \<le> j \<Longrightarrow> \<not> j < length ms" by simp
      moreover from True have "\<And>j. Suc i \<le> j \<Longrightarrow> \<not> j < length ms" by simp
      ultimately show ?thesis using "1.IH"(1) [OF inside True] by auto
    next
      case False
      show ?thesis
      proof (cases "agrees (ams ! i) (ms ! i)")
        case True
        with inside False have eq: "check_from i ams ms = check_from (Suc i) ams ms"
          by (simp add: check_from.simps [of i] agrees_def)
        from True inside False have ih:
          "check_from (Suc i) ams ms = Inr () \<longleftrightarrow>
             (\<forall>j. Suc i \<le> j \<and> j < length ams \<and> j < length ms \<longrightarrow> agrees (ams ! j) (ms ! j))"
          using "1.IH"(2) by (simp add: agrees_def)
        have "(\<forall>j. i \<le> j \<and> j < length ams \<and> j < length ms \<longrightarrow> agrees (ams ! j) (ms ! j)) \<longleftrightarrow>
              (\<forall>j. Suc i \<le> j \<and> j < length ams \<and> j < length ms \<longrightarrow> agrees (ams ! j) (ms ! j))"
          using True by (metis Suc_leI le_neq_implies_less Suc_leD)
        with eq ih show ?thesis by simp
      next
        case disagree: False
        with inside False have "check_from i ams ms \<noteq> Inr ()"
          by (auto simp add: check_from.simps [of i] agrees_def)
        moreover from disagree inside False
        have "\<not> (\<forall>j. i \<le> j \<and> j < length ams \<and> j < length ms \<longrightarrow> agrees (ams ! j) (ms ! j))"
          by (metis le_refl not_le)
        ultimately show ?thesis by simp
      qed
    qed
  qed
qed




lemma check_from_mismatch: "check_from i ams ms = Inl e \<Longrightarrow> is_mismatch e"
proof (induction i ams ms rule: check_from.induct)
  case (1 i ams ms)
  from "1.prems" have inside: "i < length ams"
    by (cases "i < length ams") (simp_all add: check_from.simps [of i])
  show ?case
  proof (cases "length ms \<le> i")
    case True
    with inside "1.prems" have "check_from (Suc i) ams ms = Inl e"
      by (simp add: check_from.simps [of i])
    with "1.IH"(1) [OF inside True] show ?thesis .
  next
    case False
    show ?thesis
    proof (cases "agrees (ams ! i) (ms ! i)")
      case True
      with inside False "1.prems" have "check_from (Suc i) ams ms = Inl e"
        by (simp add: check_from.simps [of i] agrees_def)
      with "1.IH"(2) [OF inside False] True show ?thesis by (simp add: agrees_def)
    next
      case False
      with inside \<open>\<not> length ms \<le> i\<close> "1.prems" show ?thesis
        by (auto simp add: check_from.simps [of i] agrees_def is_mismatch_def split: if_splits)
    qed
  qed
qed

lemma check_from_checksum:
  assumes "i < length ams" "i < length ms"
    and "\<forall>k. j \<le> k \<and> k < i \<longrightarrow> agrees (ams ! k) (ms ! k)"
    and "version (ams ! i) = version (ms ! i)" "name (ams ! i) = name (ms ! i)"
    and "checksum (ams ! i) \<noteq> checksum (ms ! i)" "j \<le> i"
  shows "check_from j ams ms = Inl (ChecksumMismatch (checksum (ams ! i)) (checksum (ms ! i)))"
  using assms
proof (induction j ams ms rule: check_from.induct)
  case (1 j ams ms)
  show ?case
  proof (cases "j = i")
    case True
    with "1.prems" show ?thesis by (simp add: check_from.simps [of i])
  next
    case False
    with "1.prems" have lt: "j < i" by simp
    with "1.prems" have inside: "j < length ams" and below: "\<not> length ms \<le> j" by simp_all
    from lt "1.prems" have ag: "agrees (ams ! j) (ms ! j)" by simp
    with inside below have eq: "check_from j ams ms = check_from (Suc j) ams ms"
      by (simp add: check_from.simps [of j] agrees_def)
    from ag have "check_from (Suc j) ams ms =
        Inl (ChecksumMismatch (checksum (ams ! i)) (checksum (ms ! i)))"
      using "1.IH"(2) [OF inside below] "1.prems" lt by (simp add: agrees_def)
    with eq show ?thesis by simp
  qed
qed

text \<open>
  A failing loop stops at the first index at which the pair disagrees, with the error of
  the first of the three comparisons that fails there.
\<close>

lemma check_from_first_failure:
  assumes "check_from i ams ms = Inl e"
  shows "\<exists>j. i \<le> j \<and> j < length ams \<and> j < length ms \<and>
           (\<forall>k. i \<le> k \<and> k < j \<longrightarrow> agrees (ams ! k) (ms ! k)) \<and>
           \<not> agrees (ams ! j) (ms ! j) \<and>
           e = (if version (ams ! j) \<noteq> version (ms ! j)
                then VersionMismatch (version (ams ! j)) (version (ms ! j))
                else if name (ams ! j) \<noteq> name (ms ! j)
                then NameMismatch (name (ams ! j)) (name (ms ! j))
                else ChecksumMismatch (checksum (ams ! j)) (checksum (ms ! j)))"
  using assms
proof (induction i ams ms rule: check_from.induct)
  case (1 i ams ms)
  from "1.prems" have inside: "i < length ams"
    by (cases "i < length ams") (simp_all add: check_from.simps [of i])
  have below: "\<not> length ms \<le> i"
  proof
    assume "length ms \<le> i"
    then have "\<forall>j. i \<le> j \<and> j < length ams \<and> j < length ms \<longrightarrow> agrees (ams ! j) (ms ! j)"
      by auto
    then have "check_from i ams ms = Inr ()" by (simp only: check_from_ok_iff)
    with "1.prems" show False by simp
  qed
  show ?case
  proof (cases "agrees (ams ! i) (ms ! i)")
    case False
    with inside below "1.prems"
    have "e = (if version (ams ! i) \<noteq> version (ms ! i)
                then VersionMismatch (version (ams ! i)) (version (ms ! i))
                else if name (ams ! i) \<noteq> name (ms ! i)
                then NameMismatch (name (ams ! i)) (name (ms ! i))
                else ChecksumMismatch (checksum (ams ! i)) (checksum (ms ! i)))"
      by (auto simp add: check_from.simps [of i] agrees_def split: if_splits)
    with inside below False show ?thesis
      by (intro exI [of _ i]) auto
  next
    case True
    with inside below "1.prems" have "check_from (Suc i) ams ms = Inl e"
      by (simp add: check_from.simps [of i] agrees_def)
    with "1.IH"(2) [OF inside below] True obtain j where
      j: "Suc i \<le> j" "j < length ams" "j < length ms"
        "\<forall>k. Suc i \<le> k \<and> k < j \<longrightarrow> agrees (ams ! k) (ms ! k)"
        "\<not> agrees (ams ! j) (ms ! j)"
        "e = (if version (ams ! j) \<noteq> version (ms ! j)
                then VersionMismatch (version (ams ! j)) (version (ms ! j))
                else if name (ams ! j) \<noteq> name (ms ! j)
                then NameMismatch (name (ams ! j)) (name (ms ! j))
                else ChecksumMismatch (checksum (ams ! j)) (checksum (ms ! j)))"
      by (auto simp add: agrees_def)
    have "\<forall>k. i \<le> k \<and> k < j \<longrightarrow> agrees (ams ! k) (ms ! k)"
    proof (intro allI impI)
      fix k assume k: "i \<le> k \<and> k < j"
      show "agrees (ams ! k) (ms ! k)"
      proof (cases "k = i")
        case True
        with \<open>agrees (ams ! i) (ms ! i)\<close> show ?thesis by simp
      next
        case False
        with k have "Suc i \<le> k \<and> k < j" by simp
        with j(4) show ?thesis by blast
      qed
    qed
    with j show ?thesis by (intro exI [of _ j]) simp
  qed
qed

lemma legacy_check_from_eq:
  "length ams \<le> length ms \<Longrightarrow> legacy_check_from i ams ms = check_from i ams ms"
proof (induction i ams ms rule: check_from.induct)
  case (1 i ams ms)
  show ?case
  proof (cases "i < length ams")
    case False
    then show ?thesis by (simp add: check_from.simps [of i] legacy_check_from.simps [of i])
  next
    case True
    with "1.prems" have below: "\<not> length ms \<le> i" by simp
    show ?thesis
    proof (cases "agrees (ams ! i) (ms ! i)")
      case False
      with True below show ?thesis
        by (auto simp add: check_from.simps [of i] legacy_check_from.simps [of i] agrees_def)
    next
      case ag: True
      with True below "1.IH"(2) "1.prems" have "legacy_check_from (Suc i) ams ms = check_from (Suc i) ams ms"
        by (simp add: agrees_def)
      with True below ag show ?thesis
        by (simp add: check_from.simps [of i] legacy_check_from.simps [of i] agrees_def)
    qed
  qed
qed

text \<open>
  Up to the end of the shorter list the two loops are the same: the legacy loop fails
  where the current one fails, with the same error.
\<close>

lemma legacy_check_from_error:
  "check_from i ams ms = Inl e \<Longrightarrow> legacy_check_from i ams ms = Inl e"
proof (induction i ams ms rule: check_from.induct)
  case (1 i ams ms)
  from "1.prems" have inside: "i < length ams"
    by (cases "i < length ams") (simp_all add: check_from.simps [of i])
  have below: "\<not> length ms \<le> i"
  proof
    assume "length ms \<le> i"
    then have "\<forall>j. i \<le> j \<and> j < length ams \<and> j < length ms \<longrightarrow> agrees (ams ! j) (ms ! j)"
      by auto
    then have "check_from i ams ms = Inr ()" by (simp only: check_from_ok_iff)
    with "1.prems" show False by simp
  qed
  show ?case
  proof (cases "agrees (ams ! i) (ms ! i)")
    case False
    with inside below "1.prems" show ?thesis
      by (auto simp add: check_from.simps [of i] legacy_check_from.simps [of i] agrees_def
          split: if_splits)
  next
    case True
    with inside below "1.prems" have "check_from (Suc i) ams ms = Inl e"
      by (simp add: check_from.simps [of i] agrees_def)
    with "1.IH"(2) [OF inside below] True have "legacy_check_from (Suc i) ams ms = Inl e"
      by (simp add: agrees_def)
    with inside below True show ?thesis
      by (simp add: legacy_check_from.simps [of i] agrees_def)
  qed
qed

lemma last_is_nth: "xs \<noteq> [] \<Longrightarrow> xs ! (length xs - Suc 0) = last xs"
  by (simp add: last_conv_nth)


section \<open>Properties of the execution\<close>

lemma attempted_append: "attempted (xs @ ys) = attempted xs @ attempted ys"
  by (induction xs rule: attempted.induct) simp_all

lemma written_append: "written (xs @ ys) = written xs @ written ys"
  by (induction xs rule: written.induct) simp_all

lemma applied_events_append: "applied_events (xs @ ys) = applied_events xs @ applied_events ys"
  by (induction xs rule: applied_events.induct) simp_all

lemma executeMigration_eq:
  assumes "tables w tbl = Some rows"
  shows "executeMigration tbl m w =
           ((case fst (execute m (cluster w)) of None \<Rightarrow> Inr () | Some e \<Rightarrow> Inl e),
            executed tbl m w)"
  using assms
  by (simp add: executeMigration_def new_Date_def insert_into_def executed_def ledger_row_def
      split: prod.splits option.splits)

lemma executeMigration_attempted:
  "attempted (trace (snd (executeMigration tbl m w))) = attempted (trace w) @ [ident_of m]"
  by (simp add: executeMigration_def new_Date_def insert_into_def attempted_append
      split: prod.splits option.splits sum.splits)

lemma migrate_loop_run_units: "migrate_loop tbl ms i w = run_units tbl (drop i ms) w"
proof (induction tbl ms i w rule: migrate_loop.induct)
  case (1 tbl ms i w)
  show ?case
  proof (cases "i < length ms")
    case False
    then show ?thesis by (simp add: migrate_loop.simps [of tbl ms i])
  next
    case True
    then have d: "drop i ms = ms ! i # drop (Suc i) ms"
      by (simp add: Cons_nth_drop_Suc)
    show ?thesis
    proof (cases "executeMigration tbl (ms ! i) w")
      case (Pair r w')
      show ?thesis
      proof (cases r)
        case (Inl e)
        with Pair True d show ?thesis by (simp add: migrate_loop.simps [of tbl ms i])
      next
        case (Inr u)
        with Pair have "(r, w') = executeMigration tbl (ms ! i) w" by simp
        from "1.IH" [OF True this Inr] Pair Inr True d show ?thesis
          by (simp add: migrate_loop.simps [of tbl ms i])
      qed
    qed
  qed
qed

lemma run_units_attempted:
  "\<exists>n. (ms \<noteq> [] \<longrightarrow> 0 < n) \<and> n \<le> length ms \<and>
       attempted (trace (snd (run_units tbl ms w))) = attempted (trace w) @ map ident_of (take n ms)"
proof (induction ms arbitrary: w)
  case Nil
  then show ?case by simp
next
  case (Cons m ms)
  obtain r w1 where ex: "executeMigration tbl m w = (r, w1)" by (cases "executeMigration tbl m w")
  with executeMigration_attempted [of tbl m w]
  have att: "attempted (trace w1) = attempted (trace w) @ [ident_of m]" by simp
  show ?case
  proof (cases r)
    case (Inl e)
    with ex att have "attempted (trace (snd (run_units tbl (m # ms) w))) =
        attempted (trace w) @ map ident_of (take 1 (m # ms))" by simp
    then show ?thesis by (intro exI [of _ 1]) simp
  next
    case (Inr u)
    let ?w2 = "emit (appliedMigration (version m) (name m) (mtype m)) w1"
    from Cons.IH [of ?w2] obtain n where n: "n \<le> length ms"
      "attempted (trace (snd (run_units tbl ms ?w2))) = attempted (trace ?w2) @ map ident_of (take n ms)"
      by blast
    have "attempted (trace ?w2) = attempted (trace w1)" by (simp add: emit_def attempted_append)
    with n att ex Inr have "attempted (trace (snd (run_units tbl (m # ms) w))) =
        attempted (trace w) @ map ident_of (take (Suc n) (m # ms))" by simp
    with n(1) show ?thesis by (intro exI [of _ "Suc n"]) simp
  qed
qed


section \<open>The claims about reconciliation\<close>

text \<open>
  C1. When the applied history \<open>H\<close> is a prefix of the definitions \<open>D\<close> that agrees
  with them on version, name and checksum at every index, and the last record of \<open>H\<close>
  (if there is one) has succeeded, then \<open>checkAppliedMigrations\<close> raises nothing, and
  the units the run executes are \<open>D ! length H\<close> and its successors in order: the first
  \<open>n\<close> of the definitions from index \<open>length H\<close> on, with \<open>n\<close> positive when a
  definition is pending.
\<close>

theorem reconcile_matching_prefix:
  assumes "length H \<le> length D"
    and "\<forall>i<length H. agrees (H ! i) (D ! i)"
    and "H = [] \<or> success (last H)"
  shows "checkAppliedMigrations H D = Inr () \<and>
         (\<exists>n. (length H < length D \<longrightarrow> 0 < n) \<and>
              attempted (trace (snd (migrate_body tbl H D w))) =
                attempted (trace w) @ map ident_of (take n (drop (length H) D)))"
proof -
  from assms(2) have "check_from 0 H D = Inr ()"
    by (simp add: check_from_ok_iff)
  with assms(3) have ok: "checkAppliedMigrations H D = Inr ()"
    by (auto simp add: checkAppliedMigrations_def last_is_nth)
  let ?w = "emit checkedAppliedMigrations w"
  from run_units_attempted [of "drop (length H) D" tbl ?w]
  obtain n where n: "drop (length H) D \<noteq> [] \<longrightarrow> 0 < n"
    "attempted (trace (snd (run_units tbl (drop (length H) D) ?w))) =
       attempted (trace ?w) @ map ident_of (take n (drop (length H) D))"
    by blast
  have "attempted (trace ?w) = attempted (trace w)"
    by (simp add: emit_def attempted_append)
  with n(2) ok have "attempted (trace (snd (migrate_body tbl H D w))) =
      attempted (trace w) @ map ident_of (take n (drop (length H) D))"
    by (simp add: migrate_body_def migrate_loop_run_units)
  with n(1) ok show ?thesis by auto
qed

theorem reconcile_matching_prefix_witness:
  "checkAppliedMigrations [row_1] [unit_1, unit_2, unit_3] = Inr () \<and>
   attempted (trace (snd (migrate_body ''migration_history'' [row_1] [unit_1, unit_2, unit_3]
     (world_with [row_1])))) = [ident_of unit_2, ident_of unit_3]"
  using reconcile_matching_prefix [of "[row_1]" "[unit_1, unit_2, unit_3]"
      "''migration_history''" "world_with [row_1]"]
  by (simp add: agrees_def row_1_def unit_1_def unit_2_def unit_3_def world_with_def
      migrate_body_def checkAppliedMigrations_def check_from.simps migrate_loop.simps
      executeMigration_def new_Date_def insert_into_def upsert_def emit_def noop_def
      ident_of_def)

text \<open>
  C3. When the last record of a non-empty history has not succeeded, reconciliation
  fails with the halted-history error of that record, whatever else the history and the
  definitions hold (so also when a version, name or checksum differs), in both variants
  of the runner; the run ends there with the world as it was: nothing is executed or
  written.
\<close>

theorem halted_history_refused:
  assumes "H \<noteq> []" and "\<not> success (last H)"
  shows "checkAppliedMigrations H D = Inl (MigrationFailed (version (last H)) (name (last H))) \<and>
         migrate_body tbl H D w = (Inl (MigrationFailed (version (last H)) (name (last H))), w) \<and>
         legacy_checkAppliedMigrations H D =
           Inl (MigrationFailed (version (last H)) (name (last H))) \<and>
         legacy_migrate_body H D w =
           (Inl (MigrationFailed (version (last H)) (name (last H))), w)"
  using assms
  by (simp add: checkAppliedMigrations_def legacy_checkAppliedMigrations_def migrate_body_def
      legacy_migrate_body_def last_is_nth)

theorem halted_history_refused_witness:
  "checkAppliedMigrations [row_1, row_2_failed] [unit_1_edited, unit_2_renumbered] =
     Inl (MigrationFailed 2 ''Add index'') \<and>
   migrate_body ''migration_history'' [row_1, row_2_failed] [unit_1_edited, unit_2_renumbered]
       (world_with [row_1, row_2_failed]) =
     (Inl (MigrationFailed 2 ''Add index''), world_with [row_1, row_2_failed]) \<and>
   legacy_migrate_body [row_1, row_2_failed] [unit_1_edited, unit_2_renumbered]
       (world_with [row_1, row_2_failed]) =
     (Inl (MigrationFailed 2 ''Add index''), world_with [row_1, row_2_failed])"
  using halted_history_refused [of "[row_1, row_2_failed]" "[unit_1_edited, unit_2_renumbered]"
      "''migration_history''" "world_with [row_1, row_2_failed]"]
  by (simp add: row_2_failed_def)


text \<open>
  C2, as the claim states it, fails: the loop raises the error of the first check that
  fails, index by index and, at one index, version before name before checksum. With the
  history of versions 1 and 2 and the second definition renumbered to 3 and edited, the
  checksums at index 1 differ, and the error is the version mismatch.
\<close>

theorem checksum_drift_counterexample:
  "success (last [row_1, row_2]) \<and>
   checksum ([row_1, row_2] ! 1) \<noteq> checksum ([unit_1, unit_2_renumbered] ! 1) \<and>
   checkAppliedMigrations [row_1, row_2] [unit_1, unit_2_renumbered] = Inl (VersionMismatch 2 3) \<and>
   legacy_checkAppliedMigrations [row_1, row_2] [unit_1, unit_2_renumbered] =
     Inl (VersionMismatch 2 3)"
  by (simp add: row_1_def row_2_def unit_1_def unit_2_renumbered_def
      checkAppliedMigrations_def legacy_checkAppliedMigrations_def
      check_from.simps legacy_check_from.simps)

text \<open>
  C2, amended. When the last record of the history has succeeded and the checksums of the
  applied record and of the definition differ at some index \<open>i\<close> that both lists have,
  reconciliation raises a mismatch error in both variants of the runner, and the run ends
  there with the world as it was: nothing is executed or written. The error is that of
  the first check that fails: there is a first index \<open>j\<close>, at most \<open>i\<close>, at which the
  pair disagrees, and the error is the version mismatch of \<open>j\<close> when the versions
  differ there, else the name mismatch when the names differ, else the checksum mismatch.
  So it is the checksum mismatch of index \<open>i\<close> when all pairs before \<open>i\<close> agree and the
  pair at \<open>i\<close> agrees on version and name.
\<close>

theorem checksum_drift_detected:
  assumes "i < length H" and "i < length D"
    and "checksum (H ! i) \<noteq> checksum (D ! i)"
    and "success (last H)"
  shows "\<exists>e. is_mismatch e \<and>
           checkAppliedMigrations H D = Inl e \<and>
           migrate_body tbl H D w = (Inl e, w) \<and>
           legacy_checkAppliedMigrations H D = Inl e \<and>
           legacy_migrate_body H D w = (Inl e, w) \<and>
           (\<exists>j\<le>i. (\<forall>k<j. agrees (H ! k) (D ! k)) \<and> \<not> agrees (H ! j) (D ! j) \<and>
              e = (if version (H ! j) \<noteq> version (D ! j)
                   then VersionMismatch (version (H ! j)) (version (D ! j))
                   else if name (H ! j) \<noteq> name (D ! j)
                   then NameMismatch (name (H ! j)) (name (D ! j))
                   else ChecksumMismatch (checksum (H ! j)) (checksum (D ! j)))) \<and>
           ((\<forall>k<i. agrees (H ! k) (D ! k)) \<and> version (H ! i) = version (D ! i) \<and>
              name (H ! i) = name (D ! i) \<longrightarrow>
            e = ChecksumMismatch (checksum (H ! i)) (checksum (D ! i)))"
proof -
  from assms(1) have ne: "H \<noteq> []" by auto
  with assms(4) have c: "checkAppliedMigrations H D = check_from 0 H D"
    and l: "legacy_checkAppliedMigrations H D = legacy_check_from 0 H D"
    by (simp_all add: checkAppliedMigrations_def legacy_checkAppliedMigrations_def last_is_nth)
  from assms(3) have dis: "\<not> agrees (H ! i) (D ! i)" by (simp add: agrees_def)
  with assms(1,2) have "check_from 0 H D \<noteq> Inr ()"
    by (auto simp add: check_from_ok_iff)
  then obtain e where e: "check_from 0 H D = Inl e"
    by (cases "check_from 0 H D") auto
  then have m: "is_mismatch e" by (rule check_from_mismatch)
  from e have le: "legacy_check_from 0 H D = Inl e" by (rule legacy_check_from_error)
  from check_from_first_failure [OF e] obtain j where
    j: "\<forall>k. k < j \<longrightarrow> agrees (H ! k) (D ! k)" "\<not> agrees (H ! j) (D ! j)"
      "e = (if version (H ! j) \<noteq> version (D ! j)
            then VersionMismatch (version (H ! j)) (version (D ! j))
            else if name (H ! j) \<noteq> name (D ! j)
            then NameMismatch (name (H ! j)) (name (D ! j))
            else ChecksumMismatch (checksum (H ! j)) (checksum (D ! j)))"
    by auto
  from j(1) dis have "j \<le> i" by (meson not_le)
  with j have first: "\<exists>j\<le>i. (\<forall>k<j. agrees (H ! k) (D ! k)) \<and> \<not> agrees (H ! j) (D ! j) \<and>
      e = (if version (H ! j) \<noteq> version (D ! j)
           then VersionMismatch (version (H ! j)) (version (D ! j))
           else if name (H ! j) \<noteq> name (D ! j)
           then NameMismatch (name (H ! j)) (name (D ! j))
           else ChecksumMismatch (checksum (H ! j)) (checksum (D ! j)))"
    by blast
  have "e = ChecksumMismatch (checksum (H ! i)) (checksum (D ! i))"
    if "\<forall>k<i. agrees (H ! k) (D ! k)" "version (H ! i) = version (D ! i)"
      "name (H ! i) = name (D ! i)"
    using check_from_checksum [of i H D 0] assms(1-3) that e by simp
  with m e le c l first show ?thesis
    by (simp add: migrate_body_def legacy_migrate_body_def)
qed

theorem checksum_drift_detected_witness:
  "checkAppliedMigrations [row_1, row_2] [unit_1_edited, unit_2] =
     Inl (ChecksumMismatch ''abc'' ''xyz'') \<and>
   migrate_body ''migration_history'' [row_1, row_2] [unit_1_edited, unit_2]
       (world_with [row_1, row_2]) =
     (Inl (ChecksumMismatch ''abc'' ''xyz''), world_with [row_1, row_2]) \<and>
   legacy_migrate_body [row_1, row_2] [unit_1_edited, unit_2] (world_with [row_1, row_2]) =
     (Inl (ChecksumMismatch ''abc'' ''xyz''), world_with [row_1, row_2])"
  using checksum_drift_detected [of 0 "[row_1, row_2]" "[unit_1_edited, unit_2]"
      "''migration_history''" "world_with [row_1, row_2]"]
  by (auto simp add: row_1_def row_2_def unit_1_edited_def agrees_def)

text \<open>
  The current variant tolerates a history longer than the definitions: the records
  beyond the last definition are skipped.
\<close>

lemma longer_history_tolerated:
  assumes "length D < length H"
    and "\<forall>i<length D. agrees (H ! i) (D ! i)"
    and "success (last H)"
  shows "checkAppliedMigrations H D = Inr ()"
proof -
  from assms(1) have "H \<noteq> []" by auto
  moreover from assms(2) have "check_from 0 H D = Inr ()"
    by (simp add: check_from_ok_iff)
  ultimately show ?thesis using assms(3)
    by (simp add: checkAppliedMigrations_def last_is_nth)
qed

text \<open>
  C8 fails in the legacy variant. With two applied records and only the first of their
  definitions left, the loop of lines 103--115 reads \<^verbatim>\<open>migrations[1].version\<close> of
  \<^verbatim>\<open>undefined\<close> and raises a \<^verbatim>\<open>TypeError\<close>, where the current variant (line 291)
  skips the record, as \<open>longer_history_tolerated\<close> shows.
\<close>

theorem legacy_longer_history_raises:
  "legacy_checkAppliedMigrations [row_1, row_2] [unit_1] = Inl TypeError \<and>
   checkAppliedMigrations [row_1, row_2] [unit_1] = Inr ()"
  by (simp add: row_1_def row_2_def unit_1_def
      checkAppliedMigrations_def legacy_checkAppliedMigrations_def
      check_from.simps legacy_check_from.simps)

text \<open>
  C9. When reconciliation succeeds and the history is at least as long as the list of
  definitions, the run completes successfully; the current variant emits the event that
  the history was checked and nothing else, so that no row is written, no unit executed
  and no per-unit event emitted; the legacy variant leaves the world as it was.
\<close>

theorem empty_pending_is_noop:
  assumes "length D \<le> length H"
  shows "(checkAppliedMigrations H D = Inr () \<longrightarrow>
            migrate_body tbl H D w = (Inr (), emit checkedAppliedMigrations w) \<and>
            written (trace (snd (migrate_body tbl H D w))) = written (trace w) \<and>
            attempted (trace (snd (migrate_body tbl H D w))) = attempted (trace w) \<and>
            applied_events (trace (snd (migrate_body tbl H D w))) = applied_events (trace w)) \<and>
         (legacy_checkAppliedMigrations H D = Inr () \<longrightarrow>
            legacy_migrate_body H D w = (Inr (), w))"
  using assms
  by (simp add: migrate_body_def legacy_migrate_body_def
      migrate_loop.simps [of tbl D "length H"] legacy_migrate_loop.simps [of D "length H"]
      emit_def written_append attempted_append applied_events_append)

theorem empty_pending_is_noop_witness:
  "checkAppliedMigrations [row_1, row_2] [unit_1, unit_2] = Inr () \<and>
   migrate_body ''migration_history'' [row_1, row_2] [unit_1, unit_2]
       (world_with [row_1, row_2]) =
     (Inr (), emit checkedAppliedMigrations (world_with [row_1, row_2])) \<and>
   written (trace (snd (migrate_body ''migration_history'' [row_1, row_2] [unit_1, unit_2]
       (world_with [row_1, row_2])))) = [] \<and>
   legacy_checkAppliedMigrations [row_1, row_2] [unit_1, unit_2] = Inr () \<and>
   legacy_migrate_body [row_1, row_2] [unit_1, unit_2] (world_with [row_1, row_2]) =
     (Inr (), world_with [row_1, row_2])"
proof -
  have c: "checkAppliedMigrations [row_1, row_2] [unit_1, unit_2] = Inr ()"
    and l: "legacy_checkAppliedMigrations [row_1, row_2] [unit_1, unit_2] = Inr ()"
    by (simp_all add: row_1_def row_2_def unit_1_def unit_2_def
        checkAppliedMigrations_def legacy_checkAppliedMigrations_def
        check_from.simps legacy_check_from.simps)
  with empty_pending_is_noop [of "[unit_1, unit_2]" "[row_1, row_2]" "''migration_history''"
      "world_with [row_1, row_2]"]
  show ?thesis by (simp add: world_with_def emit_def)
qed


section \<open>The claims about execution\<close>

lemma upsert_mem: "r \<in> set (upsert r rows)"
proof (cases "version r \<in> set (map version rows)")
  case True
  then obtain x where "x \<in> set rows" "version x = version r" by auto
  then have "r \<in> (\<lambda>x. if version x = version r then r else x) ` set rows"
    by (intro image_eqI [of _ _ x]) simp_all
  with True show ?thesis by (simp add: upsert_def)
next
  case False
  then show ?thesis by (simp add: upsert_def)
qed

lemma ident_of_ledger_row: "ident_of (ledger_row m w) = ident_of m"
  by (simp add: ident_of_def ledger_row_def)

lemma run_units_failure:
  assumes "tables w tbl = Some rows"
    and "succeed_all pre (cluster w) = Some c"
    and "execute m c = (Some err, c')"
  shows "fst (run_units tbl (pre @ m # post) w) = Inl err \<and>
         map ident_of (written (trace (snd (run_units tbl (pre @ m # post) w)))) =
           map ident_of (written (trace w)) @ map ident_of (pre @ [m]) \<and>
         map success (written (trace (snd (run_units tbl (pre @ m # post) w)))) =
           map success (written (trace w)) @ replicate (length pre) True @ [False] \<and>
         attempted (trace (snd (run_units tbl (pre @ m # post) w))) =
           attempted (trace w) @ map ident_of (pre @ [m]) \<and>
         applied_events (trace (snd (run_units tbl (pre @ m # post) w))) =
           applied_events (trace w) @ map event_of pre \<and>
         (\<exists>r. last (trace (snd (run_units tbl (pre @ m # post) w))) = Insert tbl r \<and>
              r \<in> set (the (tables (snd (run_units tbl (pre @ m # post) w)) tbl)) \<and>
              ident_of r = ident_of m \<and> \<not> success r)"
  using assms
proof (induction pre arbitrary: w rows)
  case Nil
  then have ex: "execute m (cluster w) = (Some err, c')" by simp
  with Nil.prems(1) have run: "run_units tbl ([] @ m # post) w = (Inl err, executed tbl m w)"
    by (simp add: executeMigration_eq)
  have "\<not> success (ledger_row m w)" using ex by (simp add: ledger_row_def)
  moreover have "ledger_row m w \<in> set (the (tables (executed tbl m w) tbl))"
    by (simp add: executed_def upsert_mem)
  moreover have "last (trace (executed tbl m w)) = Insert tbl (ledger_row m w)"
    by (simp add: executed_def)
  moreover have "written (trace (executed tbl m w)) = written (trace w) @ [ledger_row m w]"
    and "attempted (trace (executed tbl m w)) = attempted (trace w) @ [ident_of m]"
    and "applied_events (trace (executed tbl m w)) = applied_events (trace w)"
    by (simp_all add: executed_def written_append attempted_append applied_events_append)
  ultimately show ?case
    unfolding run by (simp add: ident_of_ledger_row)
next
  case (Cons p ps)
  from Cons.prems(2) obtain c1 where ex: "execute p (cluster w) = (None, c1)"
    and rest: "succeed_all ps c1 = Some c"
    by (auto split: prod.splits option.splits)
  let ?w1 = "executed tbl p w"
  let ?w2 = "emit (appliedMigration (version p) (name p) (mtype p)) ?w1"
  from ex Cons.prems(1) have run:
    "run_units tbl ((p # ps) @ m # post) w = run_units tbl (ps @ m # post) ?w2"
    by (simp add: executeMigration_eq)
  have t: "tables ?w2 tbl = Some (upsert (ledger_row p w) rows)"
    using Cons.prems(1) by (simp add: emit_def executed_def)
  have c: "cluster ?w2 = c1" using ex by (simp add: emit_def executed_def)
  have s: "success (ledger_row p w)" using ex by (simp add: ledger_row_def)
  have tr: "written (trace ?w2) = written (trace w) @ [ledger_row p w]"
    "attempted (trace ?w2) = attempted (trace w) @ [ident_of p]"
    "applied_events (trace ?w2) = applied_events (trace w) @ [event_of p]"
    by (simp_all add: emit_def executed_def event_of_def written_append attempted_append
        applied_events_append)
  from rest c have "succeed_all ps (cluster ?w2) = Some c" by simp
  from Cons.IH [OF t this Cons.prems(3)] show ?case
    unfolding run tr by (simp add: ident_of_ledger_row s replicate_app_Cons_same)
qed

text \<open>
  C4. In a run whose history table exists and whose reconciliation succeeds, let the
  pending units be \<open>pre\<close>, then \<open>m\<close>, then \<open>post\<close>, where the units of \<open>pre\<close> execute
  without raising and \<open>m\<close> raises \<open>err\<close> (so \<open>m\<close> is the \<open>k\<close>-th pending unit for
  \<open>k = length pre + 1\<close>). Then the run ends with \<open>err\<close>; it writes exactly \<open>k\<close> rows,
  those of \<open>pre\<close> and of \<open>m\<close> in order, with the success flag set for the first
  \<open>k - 1\<close> and cleared for the last; it executes those \<open>k\<close> units and none of \<open>post\<close>;
  it announces the units of \<open>pre\<close> only; and the row of \<open>m\<close> is in the table when the
  error leaves the run, its insertion being the last thing the run did.
\<close>

theorem failing_unit_is_recorded_and_halts:
  assumes "tables w tbl = Some rows"
    and "checkAppliedMigrations H D = Inr ()"
    and "drop (length H) D = pre @ m # post"
    and "succeed_all pre (cluster w) = Some c"
    and "execute m c = (Some err, c')"
  shows "fst (migrate_body tbl H D w) = Inl err \<and>
         map ident_of (written (trace (snd (migrate_body tbl H D w)))) =
           map ident_of (written (trace w)) @ map ident_of (pre @ [m]) \<and>
         map success (written (trace (snd (migrate_body tbl H D w)))) =
           map success (written (trace w)) @ replicate (length pre) True @ [False] \<and>
         attempted (trace (snd (migrate_body tbl H D w))) =
           attempted (trace w) @ map ident_of (pre @ [m]) \<and>
         applied_events (trace (snd (migrate_body tbl H D w))) =
           applied_events (trace w) @ map event_of pre \<and>
         (\<exists>r. last (trace (snd (migrate_body tbl H D w))) = Insert tbl r \<and>
              r \<in> set (the (tables (snd (migrate_body tbl H D w)) tbl)) \<and>
              ident_of r = ident_of m \<and> \<not> success r)"
proof -
  let ?w = "emit checkedAppliedMigrations w"
  have b: "migrate_body tbl H D w = run_units tbl (pre @ m # post) ?w"
    using assms(2,3) by (simp add: migrate_body_def migrate_loop_run_units)
  have t: "tables ?w tbl = Some rows" using assms(1) by (simp add: emit_def)
  have c: "succeed_all pre (cluster ?w) = Some c" using assms(4) by (simp add: emit_def)
  have tr: "written (trace ?w) = written (trace w)" "attempted (trace ?w) = attempted (trace w)"
    "applied_events (trace ?w) = applied_events (trace w)"
    by (simp_all add: emit_def written_append attempted_append applied_events_append)
  from run_units_failure [OF t c assms(5), of post] show ?thesis
    unfolding b tr .
qed

theorem failing_unit_is_recorded_and_halts_witness:
  "fst (migrate_body ''migration_history'' [] [unit_1, unit_2_failing, unit_3] (world_with [])) =
     Inl (Thrown ''Invalid query'') \<and>
   map ident_of (written (trace (snd (migrate_body ''migration_history'' []
     [unit_1, unit_2_failing, unit_3] (world_with []))))) =
     [ident_of unit_1, ident_of unit_2_failing] \<and>
   map success (written (trace (snd (migrate_body ''migration_history'' []
     [unit_1, unit_2_failing, unit_3] (world_with []))))) = [True, False] \<and>
   attempted (trace (snd (migrate_body ''migration_history'' []
     [unit_1, unit_2_failing, unit_3] (world_with [])))) =
     [ident_of unit_1, ident_of unit_2_failing] \<and>
   applied_events (trace (snd (migrate_body ''migration_history'' []
     [unit_1, unit_2_failing, unit_3] (world_with [])))) = [event_of unit_1]"
proof -
  have 1: "tables (world_with []) ''migration_history'' = Some []"
    by (simp add: world_with_def)
  have 2: "checkAppliedMigrations [] [unit_1, unit_2_failing, unit_3] = Inr ()"
    by (simp add: checkAppliedMigrations_def)
  have 3: "drop (length ([] :: row list)) [unit_1, unit_2_failing, unit_3] =
      [unit_1] @ unit_2_failing # [unit_3]" by simp
  have 4: "succeed_all [unit_1] (cluster (world_with [])) = Some ()"
    by (simp add: unit_1_def noop_def)
  have 5: "execute unit_2_failing () = (Some (Thrown ''Invalid query''), ())"
    by (simp add: unit_2_failing_def failing_def)
  from failing_unit_is_recorded_and_halts [OF 1 2 3 4 5] show ?thesis
    by (simp add: world_with_def)
qed


section \<open>The claims about loading\<close>

lemma not_digit_underscore: "\<not> is_digit CHR ''_''"
  by (simp add: is_digit_def)

lemma not_name_char_dot: "\<not> is_name_char CHR ''.''"
  by (simp add: is_name_char_def is_digit_def)

lemma match_filename_sound:
  assumes "match_filename f = Some (ds, nm, ext)"
  shows "f = ds @ ''__'' @ nm @ ''.'' @ ext \<and> ds = takeWhile is_digit f \<and> ds \<noteq> [] \<and>
         list_all is_digit ds \<and> list_all is_name_char nm \<and> (ext = ''js'' \<or> ext = ''cql'')"
proof -
  let ?r1 = "dropWhile is_digit f"
  let ?r2 = "drop 2 ?r1"
  from assms have ds: "ds = takeWhile is_digit f" and ne: "ds \<noteq> []"
    and us: "take 2 ?r1 = ''__''" and nm: "nm = takeWhile is_name_char ?r2"
    and ext: "dropWhile is_name_char ?r2 = ''.'' @ ext" "ext = ''js'' \<or> ext = ''cql''"
    by (auto simp add: match_filename_def split: if_splits)
  have "f = takeWhile is_digit f @ ?r1" by simp
  also have "?r1 = take 2 ?r1 @ ?r2" by simp
  also have "?r2 = takeWhile is_name_char ?r2 @ dropWhile is_name_char ?r2" by simp
  finally have "f = ds @ ''__'' @ nm @ ''.'' @ ext"
    using ds us nm ext(1) by simp
  moreover have "list_all is_digit ds" "list_all is_name_char nm"
    using ds nm by (auto simp add: list_all_iff dest: set_takeWhileD)
  ultimately show ?thesis using ds ne ext(2) by blast
qed

lemma match_filename_complete:
  assumes "f = ds @ ''__'' @ nm @ ''.'' @ ext" and "ds \<noteq> []"
    and "list_all is_digit ds" and "list_all is_name_char nm"
    and "ext = ''js'' \<or> ext = ''cql''"
  shows "match_filename f = Some (ds, nm, ext)"
proof -
  from assms(3) have d: "\<And>x. x \<in> set ds \<Longrightarrow> is_digit x" by (simp add: list_all_iff)
  from assms(4) have n: "\<And>x. x \<in> set nm \<Longrightarrow> is_name_char x" by (simp add: list_all_iff)
  have f: "f = ds @ (CHR ''_'' # CHR ''_'' # nm @ CHR ''.'' # ext)"
    using assms(1) by simp
  have t1: "takeWhile is_digit f = ds"
    unfolding f using d by (simp add: not_digit_underscore)
  have d1: "dropWhile is_digit f = CHR ''_'' # CHR ''_'' # nm @ CHR ''.'' # ext"
    unfolding f using d by (simp add: not_digit_underscore)
  have us: "take 2 (dropWhile is_digit f) = ''__''" by (simp add: d1)
  have r2: "drop 2 (dropWhile is_digit f) = nm @ CHR ''.'' # ext" by (simp add: d1)
  have t2: "takeWhile is_name_char (nm @ CHR ''.'' # ext) = nm"
    using n by (simp add: not_name_char_dot)
  have d2: "dropWhile is_name_char (nm @ CHR ''.'' # ext) = CHR ''.'' # ext"
    using n by (simp add: not_name_char_dot)
  from assms(2,5) show ?thesis
    unfolding match_filename_def t1 us r2 t2 d2 by auto
qed

text \<open>The matcher decides the language of the pattern.\<close>

lemma matches_pattern_iff: "matches_pattern f \<longleftrightarrow> match_filename f \<noteq> None"
proof
  assume "matches_pattern f"
  then obtain ds nm ext where "f = ds @ ''__'' @ nm @ ''.'' @ ext" "ds \<noteq> []"
    "list_all is_digit ds" "list_all is_name_char nm" "ext = ''js'' \<or> ext = ''cql''"
    unfolding matches_pattern_def by blast
  then have "match_filename f = Some (ds, nm, ext)" by (rule match_filename_complete)
  then show "match_filename f \<noteq> None" by simp
next
  assume "match_filename f \<noteq> None"
  then obtain ds nm ext where "match_filename f = Some (ds, nm, ext)"
    by (cases "match_filename f") auto
  from match_filename_sound [OF this] show "matches_pattern f"
    unfolding matches_pattern_def by blast
qed


lemma loadAvailableMigration_skip:
  assumes "\<not> matches_pattern f"
  shows "loadAvailableMigration env d f = Inr None"
proof -
  from assms have "match_filename f = None" unfolding matches_pattern_iff by blast
  then show ?thesis by (simp add: loadAvailableMigration_def)
qed

lemma loadAvailableMigration_unit:
  assumes "loadAvailableMigration env d f = Inr (Some m)"
  shows "matches_pattern f \<and> version m = file_version f"
proof (cases "match_filename f")
  case None
  with assms show ?thesis by (simp add: loadAvailableMigration_def)
next
  case (Some g)
  obtain ds nm ext where g: "g = (ds, nm, ext)" by (cases g)
  with Some have m: "match_filename f = Some (ds, nm, ext)" by simp
  show ?thesis
  proof (cases "prettyName nm")
    case (Inl e)
    with assms m show ?thesis by (simp add: loadAvailableMigration_def)
  next
    case pn: (Inr pretty)
    show ?thesis
    proof (cases "load env ext (d @ ''/'' @ f)")
      case (Inl e)
      with assms m pn show ?thesis by (simp add: loadAvailableMigration_def)
    next
      case (Inr l)
      obtain ty cs payload where "l = (ty, cs, payload)" by (cases l)
      with Inr assms m pn have "m = \<lparr>version = parseInt ds, name = pretty, mtype = ty,
          checksum = cs, execute = payload\<rparr>"
        unfolding loadAvailableMigration_def by simp
      then have "version m = parseInt ds" by simp
      moreover from match_filename_sound [OF m] have "ds = takeWhile is_digit f" by blast
      moreover from m have "matches_pattern f" by (simp add: matches_pattern_iff)
      ultimately show ?thesis by (simp add: file_version_def)
    qed
  qed
qed

lemma loadAvailableMigration_none:
  assumes "loadAvailableMigration env d f = Inr None"
  shows "\<not> matches_pattern f"
proof (cases "match_filename f")
  case None
  then show ?thesis by (simp add: matches_pattern_iff)
next
  case (Some g)
  obtain ds nm ext where g: "g = (ds, nm, ext)" by (cases g)
  with Some have m: "match_filename f = Some (ds, nm, ext)" by simp
  show ?thesis
  proof (cases "prettyName nm")
    case (Inl e)
    with assms m show ?thesis by (simp add: loadAvailableMigration_def)
  next
    case pn: (Inr pretty)
    show ?thesis
    proof (cases "load env ext (d @ ''/'' @ f)")
      case (Inl e)
      with assms m pn show ?thesis by (simp add: loadAvailableMigration_def)
    next
      case (Inr l)
      obtain ty cs payload where "l = (ty, cs, payload)" by (cases l)
      with Inr assms m pn show ?thesis by (simp add: loadAvailableMigration_def)
    qed
  qed
qed

lemma load_loop_versions:
  "load_loop env d files acc = Inr D \<Longrightarrow>
     map version D = map version acc @ map file_version (filter matches_pattern files)"
proof (induction files arbitrary: acc)
  case Nil
  then show ?case by simp
next
  case (Cons f files)
  show ?case
  proof (cases "loadAvailableMigration env d f")
    case (Inl e)
    with Cons.prems show ?thesis by simp
  next
    case (Inr r)
    show ?thesis
    proof (cases r)
      case None
      with Inr have "\<not> matches_pattern f" by (simp add: loadAvailableMigration_none)
      moreover from None Inr Cons.prems have "load_loop env d files acc = Inr D" by simp
      ultimately show ?thesis using Cons.IH by simp
    next
      case (Some m)
      with Inr have "matches_pattern f" "version m = file_version f"
        by (simp_all add: loadAvailableMigration_unit)
      moreover from Some Inr Cons.prems have "load_loop env d files (acc @ [m]) = Inr D"
        by simp
      ultimately show ?thesis using Cons.IH [of "acc @ [m]"] by simp
    qed
  qed
qed

lemma load_loop_skip:
  assumes "\<not> matches_pattern f"
  shows "load_loop env d (before @ f # after) acc = load_loop env d (before @ after) acc"
proof (induction before arbitrary: acc)
  case Nil
  from assms show ?case by (simp add: loadAvailableMigration_skip)
next
  case (Cons b before)
  show ?case
  proof (cases "loadAvailableMigration env d b")
    case (Inl e)
    then show ?thesis by simp
  next
    case (Inr r)
    with Cons.IH show ?thesis by (cases r) simp_all
  qed
qed

lemma legacy_loadMigration_unit:
  assumes "legacy_loadMigration env d f = Inr r"
  shows "\<exists>m. r = Some m \<and> matches_pattern f \<and> version m = file_version f"
proof (cases "match_filename f")
  case None
  with assms show ?thesis by (simp add: legacy_loadMigration_def)
next
  case (Some g)
  obtain ds nm ext where g: "g = (ds, nm, ext)" by (cases g)
  with Some have m: "match_filename f = Some (ds, nm, ext)" by simp
  show ?thesis
  proof (cases "load env ext (d @ ''/'' @ f)")
    case (Inl e)
    with assms m show ?thesis by (simp add: legacy_loadMigration_def)
  next
    case (Inr l)
    obtain ty cs payload where "l = (ty, cs, payload)" by (cases l)
    with Inr assms m have "r = Some \<lparr>version = parseInt ds, name = nm, mtype = ty,
        checksum = cs, execute = payload\<rparr>"
      unfolding legacy_loadMigration_def by simp
    then obtain u where "r = Some u" "version u = parseInt ds" by simp
    moreover from match_filename_sound [OF m] have "ds = takeWhile is_digit f" by blast
    moreover from m have "matches_pattern f" by (simp add: matches_pattern_iff)
    ultimately show ?thesis by (simp add: file_version_def)
  qed
qed

lemma legacy_load_loop_versions:
  "legacy_load_loop env d files acc = Inr D \<Longrightarrow>
     map version D = map version acc @ map file_version files \<and> list_all matches_pattern files"
proof (induction files arbitrary: acc)
  case Nil
  then show ?case by simp
next
  case (Cons f files)
  show ?case
  proof (cases "legacy_loadMigration env d f")
    case (Inl e)
    with Cons.prems show ?thesis by simp
  next
    case (Inr r)
    from legacy_loadMigration_unit [OF Inr] obtain m where
      m: "r = Some m" "matches_pattern f" "version m = file_version f" by blast
    with Inr Cons.prems have "legacy_load_loop env d files (acc @ [m]) = Inr D" by simp
    from Cons.IH [OF this] m show ?thesis by simp
  qed
qed


lemma prettyName_create_users: "prettyName ''create_users'' = Inr ''Create users''"
  by code_simp

lemma prettyName_add_index: "prettyName ''add_index'' = Inr ''Add index''"
  by code_simp

lemma match_create_users:
  "match_filename ''1__create_users.cql'' = Some (''1'', ''create_users'', ''cql'')"
  by (simp add: match_filename_def is_digit_def is_name_char_def)

lemma match_add_index:
  "match_filename ''2__add_index.cql'' = Some (''2'', ''add_index'', ''cql'')"
  by (simp add: match_filename_def is_digit_def is_name_char_def)

lemma match_readme: "match_filename ''README.md'' = None"
  by (simp add: match_filename_def is_digit_def is_name_char_def)

lemma load_create_users:
  "loadAvailableMigration (listing_env files) ''migrations'' ''1__create_users.cql'' =
     Inr (Some unit_1)"
  by (simp add: loadAvailableMigration_def match_create_users prettyName_create_users
      listing_env_def parseInt_def unit_1_def)

lemma load_add_index:
  "loadAvailableMigration (listing_env files) ''migrations'' ''2__add_index.cql'' =
     Inr (Some unit_2)"
  by (simp add: loadAvailableMigration_def match_add_index prettyName_add_index
      listing_env_def parseInt_def unit_2_def)

lemma load_readme:
  "loadAvailableMigration (listing_env files) ''migrations'' ''README.md'' = Inr None"
  by (simp add: loadAvailableMigration_def match_readme)

lemma legacy_load_create_users:
  "legacy_loadMigration (listing_env files) ''migrations'' ''1__create_users.cql'' =
     Inr (Some (unit_1\<lparr>name := ''create_users''\<rparr>))"
  by (simp add: legacy_loadMigration_def match_create_users listing_env_def parseInt_def
      unit_1_def)

lemma legacy_load_add_index:
  "legacy_loadMigration (listing_env files) ''migrations'' ''2__add_index.cql'' =
     Inr (Some (unit_2\<lparr>name := ''add_index''\<rparr>))"
  by (simp add: legacy_loadMigration_def match_add_index listing_env_def parseInt_def
      unit_2_def)

lemma readdir_listing: "readdirSync (listing_env files) d = Inr files"
  by (simp add: listing_env_def)

text \<open>
  What the loaders give: the versions parsed from the file names that match the pattern,
  in the order in which the directory listing returns these names (in the legacy
  variant, which loads only when every name matches, in the order of the whole listing).
  Neither loader sorts.
\<close>

lemma loaded_versions_follow_listing:
  assumes "readdirSync env d = Inr files"
  shows "(loadAvailableMigrations env d = Inr D \<longrightarrow>
            map version D = map file_version (filter matches_pattern files)) \<and>
         (legacy_loadMigrations env d = Inr L \<longrightarrow>
            list_all matches_pattern files \<and> map version L = map file_version files)"
proof -
  have "map version D = map file_version (filter matches_pattern files)"
    if "loadAvailableMigrations env d = Inr D"
    using that assms load_loop_versions [of env d files "[]" D]
    by (simp add: loadAvailableMigrations_def)
  moreover have "list_all matches_pattern files \<and> map version L = map file_version files"
    if "legacy_loadMigrations env d = Inr L"
    using that assms legacy_load_loop_versions [of env d files "[]" L]
    by (simp add: legacy_loadMigrations_def)
  ultimately show ?thesis by simp
qed

lemma prettyName_add_table: "prettyName ''add_table'' = Inr ''Add table''"
  by code_simp

lemma match_add_table:
  "match_filename ''10__add_table.cql'' = Some (''10'', ''add_table'', ''cql'')"
  by (simp add: match_filename_def is_digit_def is_name_char_def)

lemma load_add_table:
  "loadAvailableMigration (listing_env files) ''migrations'' ''10__add_table.cql'' =
     Inr (Some unit_10)"
  by (simp add: loadAvailableMigration_def match_add_table prettyName_add_table
      listing_env_def parseInt_def unit_10_def)

lemma legacy_load_add_table:
  "legacy_loadMigration (listing_env files) ''migrations'' ''10__add_table.cql'' =
     Inr (Some (unit_10\<lparr>name := ''add_table''\<rparr>))"
  by (simp add: legacy_loadMigration_def match_add_table listing_env_def parseInt_def
      unit_10_def)

lemma load_unsorted:
  "loadAvailableMigrations
     (listing_env [''10__add_table.cql'', ''1__create_users.cql'', ''2__add_index.cql''])
     ''migrations'' = Inr [unit_10, unit_1, unit_2]"
  by (simp add: loadAvailableMigrations_def readdir_listing load_add_table load_create_users
      load_add_index)

text \<open>
  C6 fails in the code, in both variants: the loaders push the units in the order of
  \<^verbatim>\<open>fs.readdirSync\<close> and never sort them, although the runner needs them in version
  order: it compares them index by index with the history, which the current variant
  sorts by version (lines 217--219, 287--295), and executes them from the index that is
  the length of the history (line 370). For the definitions of versions 1, 2 and 10, a
  listing in the order of the names gives \<^verbatim>\<open>10__add_table.cql\<close> first, since the
  character \<^verbatim>\<open>0\<close> precedes the underscore. The list of available migrations is then
  10, 1, 2; on an empty history the run executes the units in that order and completes;
  and the next run refuses the history that this run has written, with the version
  mismatch of 1 against 10.
\<close>

theorem listing_order_breaks_version_order:
  "loadAvailableMigrations
     (listing_env [''10__add_table.cql'', ''1__create_users.cql'', ''2__add_index.cql''])
     ''migrations'' = Inr [unit_10, unit_1, unit_2] \<and>
   legacy_loadMigrations
     (listing_env [''10__add_table.cql'', ''1__create_users.cql'', ''2__add_index.cql''])
     ''migrations'' =
     Inr [unit_10\<lparr>name := ''add_table''\<rparr>, unit_1\<lparr>name := ''create_users''\<rparr>,
          unit_2\<lparr>name := ''add_index''\<rparr>] \<and>
   map version [unit_10, unit_1, unit_2] = [10, 1, 2] \<and>
   \<not> sorted (map version [unit_10, unit_1, unit_2]) \<and>
   fst (migrate
     (listing_env [''10__add_table.cql'', ''1__create_users.cql'', ''2__add_index.cql''])
     opts_0 (world_with [])) = Inr () \<and>
   map version (attempted (trace (snd (migrate
     (listing_env [''10__add_table.cql'', ''1__create_users.cql'', ''2__add_index.cql''])
     opts_0 (world_with []))))) = [10, 1, 2] \<and>
   fst (migrate
     (listing_env [''10__add_table.cql'', ''1__create_users.cql'', ''2__add_index.cql''])
     opts_0
     (snd (migrate
       (listing_env [''10__add_table.cql'', ''1__create_users.cql'', ''2__add_index.cql''])
       opts_0 (world_with [])))) = Inl (VersionMismatch 1 10)"
proof -
  let ?env = "listing_env [''10__add_table.cql'', ''1__create_users.cql'', ''2__add_index.cql'']"
  have legacy: "legacy_loadMigrations ?env ''migrations'' =
     Inr [unit_10\<lparr>name := ''add_table''\<rparr>, unit_1\<lparr>name := ''create_users''\<rparr>,
          unit_2\<lparr>name := ''add_index''\<rparr>]"
    by (simp add: legacy_loadMigrations_def readdir_listing legacy_load_add_table
        legacy_load_create_users legacy_load_add_index)
  have versions: "map version [unit_10, unit_1, unit_2] = [10, 1, 2]"
    by (simp add: unit_10_def unit_1_def unit_2_def)
  have runs: "fst (migrate ?env opts_0 (world_with [])) = Inr () \<and>
      map version (attempted (trace (snd (migrate ?env opts_0 (world_with []))))) = [10, 1, 2] \<and>
      fst (migrate ?env opts_0 (snd (migrate ?env opts_0 (world_with [])))) =
        Inl (VersionMismatch 1 10)"
    by (simp add: migrate_def load_unsorted set_up_def Let_def getAppliedMigrations_def
        select_all_def migrate_body_def checkAppliedMigrations_def check_from.simps
        migrate_loop.simps executeMigration_def new_Date_def insert_into_def upsert_def
        emit_def ensureMigrationTable_def ensureKeyspace_def useKeyspace_def
        world_with_def opts_0_def unit_10_def unit_1_def unit_2_def noop_def ident_of_def)
  from legacy versions runs show ?thesis
    by (simp add: load_unsorted)
qed

text \<open>
  The current variant skips a file name that does not match the pattern: loading it
  raises nothing and gives no unit, and the directory loads as it would without the file.
\<close>

lemma nonmatching_file_is_skipped:
  assumes "\<not> matches_pattern f"
  shows "loadAvailableMigration env d f = Inr None \<and>
         (readdirSync env d = Inr (before @ f # after) \<longrightarrow>
            loadAvailableMigrations env d = load_loop env d (before @ after) [])"
  using assms
  by (simp add: loadAvailableMigration_skip loadAvailableMigrations_def load_loop_skip)

lemma legacy_nonmatching_file:
  assumes "\<not> matches_pattern f"
  shows "legacy_loadMigration env d f = Inl TypeError"
proof -
  from assms have "match_filename f = None" unfolding matches_pattern_iff by blast
  then show ?thesis by (simp add: legacy_loadMigration_def)
qed

text \<open>
  C10 fails in the legacy variant. For \<^verbatim>\<open>README.md\<close>, which does not match the pattern,
  \<^verbatim>\<open>filename.match\<close> gives \<^verbatim>\<open>null\<close>, and line 50 reads \<^verbatim>\<open>match.index\<close> of it: the
  legacy loader raises a \<^verbatim>\<open>TypeError\<close>, and so does the loading of a directory that
  holds the file, where the current variant (line 230) skips it, as
  \<open>nonmatching_file_is_skipped\<close> shows.
\<close>

theorem legacy_nonmatching_file_raises:
  "match_filename ''README.md'' = None \<and>
   legacy_loadMigration (listing_env [''1__create_users.cql'', ''README.md'', ''2__add_index.cql''])
     ''migrations'' ''README.md'' = Inl TypeError \<and>
   legacy_loadMigrations (listing_env [''1__create_users.cql'', ''README.md'', ''2__add_index.cql''])
     ''migrations'' = Inl TypeError \<and>
   loadAvailableMigrations (listing_env [''1__create_users.cql'', ''README.md'', ''2__add_index.cql''])
     ''migrations'' = Inr [unit_1, unit_2]"
proof -
  have "legacy_loadMigration env ''migrations'' ''README.md'' = Inl TypeError"
    for env :: "unit env"
    by (simp add: legacy_loadMigration_def match_readme)
  then show ?thesis
    by (simp add: match_readme legacy_loadMigrations_def loadAvailableMigrations_def
        readdir_listing legacy_load_create_users load_create_users load_add_index load_readme)
qed

section \<open>The claims about reading the history\<close>

text \<open>
  The current variant returns the rows of the table, all of them and nothing else,
  ordered by ascending version; an empty table gives the empty history.
\<close>

lemma getAppliedMigrations_sorted:
  assumes "tables w tbl = Some rows"
  shows "getAppliedMigrations tbl w = Inr (sort_key version rows) \<and>
         sorted (map version (sort_key version rows)) \<and>
         mset (sort_key version rows) = mset rows \<and>
         (rows = [] \<longrightarrow> getAppliedMigrations tbl w = Inr [])"
  using assms by (simp add: getAppliedMigrations_def select_all_def)

text \<open>
  C7 fails in the legacy variant. When the driver returns the row of version 2 before
  that of version 1, \<^verbatim>\<open>getAppliedMigrations\<close> of lines 42--46 returns them in that
  order, where the current variant (lines 217--219) sorts them, as
  \<open>getAppliedMigrations_sorted\<close> shows.
\<close>

theorem legacy_history_unsorted:
  "legacy_getAppliedMigrations (world_with [row_2, row_1]) = Inr [row_2, row_1] \<and>
   \<not> sorted (map version [row_2, row_1]) \<and>
   getAppliedMigrations ''migration_history'' (world_with [row_2, row_1]) = Inr [row_1, row_2]"
  by (simp add: legacy_getAppliedMigrations_def getAppliedMigrations_def select_all_def
      world_with_def row_1_def row_2_def)


section \<open>Running twice\<close>

lemma set_up_table:
  "tables (set_up opts w) (migrationTable opts) =
     Some (case tables w (migrationTable opts) of None \<Rightarrow> [] | Some rows \<Rightarrow> rows)"
  by (simp add: set_up_def Let_def emit_def ensureMigrationTable_def ensureKeyspace_def
      useKeyspace_def split: option.splits)

lemma set_up_trace:
  "written (trace (set_up opts w)) = written (trace w) \<and>
   attempted (trace (set_up opts w)) = attempted (trace w) \<and>
   applied_events (trace (set_up opts w)) = applied_events (trace w)"
  by (simp add: set_up_def Let_def emit_def ensureMigrationTable_def ensureKeyspace_def
      useKeyspace_def written_append attempted_append applied_events_append)

lemma upsert_new: "version r \<notin> set (map version rows) \<Longrightarrow> upsert r rows = rows @ [r]"
  by (simp add: upsert_def)

lemma run_units_rows:
  assumes "tables w tbl = Some rows"
    and "run_units tbl ms w = (Inr (), w')"
    and "distinct (map version ms)"
    and "set (map version ms) \<inter> set (map version rows) = {}"
  shows "\<exists>rows'. tables w' tbl = Some rows' \<and> length rows' = length rows + length ms"
  using assms
proof (induction ms arbitrary: w rows)
  case Nil
  then show ?case by simp
next
  case (Cons m ms)
  let ?r = "ledger_row m w"
  let ?w2 = "emit (appliedMigration (version m) (name m) (mtype m)) (executed tbl m w)"
  from Cons.prems(1,2) have run: "run_units tbl ms ?w2 = (Inr (), w')"
    by (simp add: executeMigration_eq split: option.splits)
  from Cons.prems(4) have "version ?r \<notin> set (map version rows)"
    by (auto simp add: ledger_row_def)
  with Cons.prems(1) have t: "tables ?w2 tbl = Some (rows @ [?r])"
    by (simp add: emit_def executed_def upsert_new)
  from Cons.prems(3) have d: "distinct (map version ms)" by simp
  from Cons.prems(3,4) have "set (map version ms) \<inter> set (map version (rows @ [?r])) = {}"
    by (auto simp add: ledger_row_def)
  from Cons.IH [OF t run d this] show ?case by auto
qed

lemma checked_prefix_versions:
  assumes "checkAppliedMigrations H D = Inr ()" and "length H \<le> length D"
  shows "map version H = map version (take (length H) D)"
proof (cases "H = []")
  case True
  then show ?thesis by simp
next
  case False
  with assms(1) have "check_from 0 H D = Inr ()"
    by (simp add: checkAppliedMigrations_def split: if_splits)
  then have "\<forall>j. j < length H \<and> j < length D \<longrightarrow> agrees (H ! j) (D ! j)"
    by (simp add: check_from_ok_iff)
  with assms(2) show ?thesis
    by (intro nth_equalityI) (simp_all add: agrees_def)
qed

lemma first_run_fills_table:
  assumes "migrate env opts w = (Inr (), w1)"
    and "loadAvailableMigrations env (dir opts) = Inr D"
    and "distinct (map version D)"
  shows "\<exists>rows1. tables w1 (migrationTable opts) = Some rows1 \<and> length D \<le> length rows1"
proof -
  let ?tbl = "migrationTable opts"
  let ?w0 = "set_up opts w"
  let ?wc = "emit checkedAppliedMigrations ?w0"
  obtain rows0 where t0: "tables ?w0 ?tbl = Some rows0"
    using set_up_table [of opts w] by simp
  let ?H = "sort_key version rows0"
  from t0 have g: "getAppliedMigrations ?tbl ?w0 = Inr ?H"
    by (simp add: getAppliedMigrations_def select_all_def)
  with assms(1,2) have b: "migrate_body ?tbl ?H D ?w0 = (Inr (), w1)"
    by (simp add: migrate_def)
  then have ok: "checkAppliedMigrations ?H D = Inr ()"
    by (cases "checkAppliedMigrations ?H D") (simp_all add: migrate_body_def)
  with b have run: "run_units ?tbl (drop (length ?H) D) ?wc = (Inr (), w1)"
    by (simp add: migrate_body_def migrate_loop_run_units)
  have tc: "tables ?wc ?tbl = Some rows0" using t0 by (simp add: emit_def)
  show ?thesis
  proof (cases "length D \<le> length ?H")
    case True
    with run have "w1 = ?wc" by simp
    with tc True show ?thesis by simp
  next
    case False
    then have le: "length ?H \<le> length D" by simp
    let ?n = "length ?H"
    from checked_prefix_versions [OF ok le]
    have "set (map version rows0) = set (map version (take ?n D))"
      by (metis set_map set_sort)
    moreover from assms(3) have "distinct (map version (take ?n D) @ map version (drop ?n D))"
      by (simp only: map_append [symmetric] append_take_drop_id)
    ultimately have dj: "set (map version (drop ?n D)) \<inter> set (map version rows0) = {}"
      and di: "distinct (map version (drop ?n D))"
      by auto
    from run_units_rows [OF tc run di dj] obtain rows1 where
      "tables w1 ?tbl = Some rows1" "length rows1 = length rows0 + length (drop ?n D)"
      by blast
    with le show ?thesis by simp
  qed
qed

lemma filled_table_run:
  assumes "tables w1 (migrationTable opts) = Some rows1" and "length D \<le> length rows1"
    and "loadAvailableMigrations env (dir opts) = Inr D"
  shows "written (trace (snd (migrate env opts w1))) = written (trace w1) \<and>
         attempted (trace (snd (migrate env opts w1))) = attempted (trace w1) \<and>
         applied_events (trace (snd (migrate env opts w1))) = applied_events (trace w1)"
proof -
  let ?tbl = "migrationTable opts"
  let ?w0 = "set_up opts w1"
  let ?H = "sort_key version rows1"
  from assms(1) have "tables ?w0 ?tbl = Some rows1"
    using set_up_table [of opts w1] by simp
  then have "getAppliedMigrations ?tbl ?w0 = Inr ?H"
    by (simp add: getAppliedMigrations_def select_all_def)
  with assms(3) have m: "migrate env opts w1 = migrate_body ?tbl ?H D ?w0"
    by (simp add: migrate_def)
  from assms(2) have "\<not> length ?H < length D" by simp
  then have "migrate_loop ?tbl D (length ?H) v = (Inr (), v)" for v
    by (simp add: migrate_loop_run_units)
  then have "snd (migrate_body ?tbl ?H D ?w0) = ?w0 \<or>
             snd (migrate_body ?tbl ?H D ?w0) = emit checkedAppliedMigrations ?w0"
    by (cases "checkAppliedMigrations ?H D") (simp_all add: migrate_body_def)
  then show ?thesis
    unfolding m using set_up_trace [of opts w1]
    by (auto simp add: emit_def written_append attempted_append applied_events_append)
qed


lemma match_create_users_padded:
  "match_filename ''01__create_users.cql'' = Some (''01'', ''create_users'', ''cql'')"
  by (simp add: match_filename_def is_digit_def is_name_char_def)

lemma load_create_users_padded:
  "loadAvailableMigration (listing_env files) ''migrations'' ''01__create_users.cql'' =
     Inr (Some unit_1)"
  by (simp add: loadAvailableMigration_def match_create_users_padded prettyName_create_users
      listing_env_def parseInt_def unit_1_def)

lemma load_twins:
  "loadAvailableMigrations (listing_env [''01__create_users.cql'', ''1__create_users.cql''])
     ''migrations'' = Inr [unit_1, unit_1]"
  by (simp add: loadAvailableMigrations_def readdir_listing load_create_users
      load_create_users_padded)

lemma load_pair:
  "loadAvailableMigrations (listing_env [''1__create_users.cql'', ''2__add_index.cql''])
     ''migrations'' = Inr [unit_1, unit_2]"
  by (simp add: loadAvailableMigrations_def readdir_listing load_create_users load_add_index)

text \<open>
  C5, as the claim states it, fails when two definitions have the same version. The
  files \<^verbatim>\<open>01__create_users.cql\<close> and \<^verbatim>\<open>1__create_users.cql\<close> with the same content
  load as two units of version 1 with the same name and checksum. On an empty history
  the first run executes both and completes; its second insert replaces the row of the
  first, since the version is the primary key. The second run finds one row, which agrees
  with the first definition, and executes the second definition again: it writes a row.
\<close>

theorem second_run_writes_counterexample:
  "fst (migrate (listing_env [''01__create_users.cql'', ''1__create_users.cql'']) opts_0
     (world_with [])) = Inr () \<and>
   length (written (trace (snd (migrate
     (listing_env [''01__create_users.cql'', ''1__create_users.cql'']) opts_0
     (world_with []))))) = 2 \<and>
   fst (migrate (listing_env [''01__create_users.cql'', ''1__create_users.cql'']) opts_0
     (snd (migrate (listing_env [''01__create_users.cql'', ''1__create_users.cql'']) opts_0
       (world_with [])))) = Inr () \<and>
   length (written (trace (snd (migrate
     (listing_env [''01__create_users.cql'', ''1__create_users.cql'']) opts_0
     (snd (migrate (listing_env [''01__create_users.cql'', ''1__create_users.cql'']) opts_0
       (world_with []))))))) = 3"
  by (simp add: migrate_def load_twins set_up_def Let_def getAppliedMigrations_def
      select_all_def migrate_body_def checkAppliedMigrations_def check_from.simps
      migrate_loop.simps executeMigration_def new_Date_def insert_into_def upsert_def
      emit_def ensureMigrationTable_def ensureKeyspace_def useKeyspace_def
      world_with_def opts_0_def unit_1_def noop_def)

text \<open>
  C5, amended. When the loaded definitions have pairwise distinct versions, a run of
  \<open>migrate\<close> that completes successfully, followed by a second run with the same
  options on the same definitions, writes no row to the history table, executes no
  unit and announces none in the second run.
\<close>

theorem second_run_writes_nothing:
  assumes "migrate env opts w = (Inr (), w1)"
    and "loadAvailableMigrations env (dir opts) = Inr D"
    and "distinct (map version D)"
  shows "written (trace (snd (migrate env opts w1))) = written (trace w1) \<and>
         attempted (trace (snd (migrate env opts w1))) = attempted (trace w1) \<and>
         applied_events (trace (snd (migrate env opts w1))) = applied_events (trace w1)"
proof -
  from first_run_fills_table [OF assms] obtain rows1 where
    "tables w1 (migrationTable opts) = Some rows1" "length D \<le> length rows1"
    by blast
  then show ?thesis using assms(2) by (rule filled_table_run)
qed


theorem second_run_writes_nothing_witness:
  "fst (migrate (listing_env [''1__create_users.cql'', ''2__add_index.cql'']) opts_0
     (world_with [])) = Inr () \<and>
   map version (written (trace (snd (migrate
     (listing_env [''1__create_users.cql'', ''2__add_index.cql'']) opts_0
     (world_with []))))) = [1, 2] \<and>
   written (trace (snd (migrate
     (listing_env [''1__create_users.cql'', ''2__add_index.cql'']) opts_0
     (snd (migrate (listing_env [''1__create_users.cql'', ''2__add_index.cql'']) opts_0
       (world_with [])))))) =
   written (trace (snd (migrate
     (listing_env [''1__create_users.cql'', ''2__add_index.cql'']) opts_0
     (world_with []))))"
proof -
  let ?env = "listing_env [''1__create_users.cql'', ''2__add_index.cql'']"
  have run: "fst (migrate ?env opts_0 (world_with [])) = Inr () \<and>
      map version (written (trace (snd (migrate ?env opts_0 (world_with []))))) = [1, 2]"
    by (simp add: migrate_def load_pair set_up_def Let_def getAppliedMigrations_def
        select_all_def migrate_body_def checkAppliedMigrations_def
        migrate_loop.simps executeMigration_def new_Date_def insert_into_def upsert_def
        emit_def ensureMigrationTable_def ensureKeyspace_def useKeyspace_def
        world_with_def opts_0_def unit_1_def unit_2_def noop_def)
  then have 1: "migrate ?env opts_0 (world_with []) =
      (Inr (), snd (migrate ?env opts_0 (world_with [])))"
    by (simp add: prod_eq_iff)
  have 2: "loadAvailableMigrations ?env (dir opts_0) = Inr [unit_1, unit_2]"
    by (simp add: load_pair opts_0_def)
  have 3: "distinct (map version [unit_1, unit_2])"
    by (simp add: unit_1_def unit_2_def)
  from second_run_writes_nothing [OF 1 2 3] run show ?thesis by simp
qed

end
